theory Spec2Isabelle
  imports Complex_Main "HOL-Library.Word"
begin

unbundle bit_operations_syntax

section \<open>Values of the platform\<close>

text \<open>
  The exceptions that the modelled part of \<^verbatim>\<open>App.tsx\<close> and the platform calls it makes
  can raise.
\<close>

datatype error =
    InvalidCharacterError
  | RangeError
  | NotSupportedError
  | TypeError
  | InvalidStateError

text \<open>
  A JavaScript number as it occurs in the audio path. Every finite \<^verbatim>\<open>Float32Array\<close> element
  is a real number; the three operations the code applies to samples (multiplication by
  \<open>32768 = 2^15\<close>, the integer conversion of a typed-array store, and division of a 16-bit
  integer by \<open>2^15\<close>) are exact on such values in double precision, so they are modelled on
  \<open>real\<close> without rounding.
\<close>

datatype number = Finite real | NaN | PosInfinity | NegInfinity

text \<open>\<^verbatim>\<open>data[i] * 32768\<close>\<close>

fun times32768 :: "number \<Rightarrow> number" where
  "times32768 (Finite r) = Finite (r * 32768)"
| "times32768 NaN = NaN"
| "times32768 PosInfinity = PosInfinity"
| "times32768 NegInfinity = NegInfinity"

text \<open>Truncation towards zero, the first step of ECMAScript's integer conversions.\<close>

definition trunc :: "real \<Rightarrow> int" where
  "trunc r = (if 0 \<le> r then \<lfloor>r\<rfloor> else \<lceil>r\<rceil>)"

text \<open>
  ECMAScript \<^verbatim>\<open>ToInt16\<close>, applied by a store into an \<^verbatim>\<open>Int16Array\<close>: a value that is not
  finite becomes 0, any other is truncated and reduced modulo \<open>2^16\<close>. The signed reading
  of the stored element is \<^term>\<open>sint\<close>.
\<close>

fun ToInt16 :: "number \<Rightarrow> 16 word" where
  "ToInt16 (Finite r) = word_of_int (trunc r)"
| "ToInt16 NaN = 0"
| "ToInt16 PosInfinity = 0"
| "ToInt16 NegInfinity = 0"

text \<open>
  \<^verbatim>\<open>new Uint8Array(int16.buffer)\<close> and \<^verbatim>\<open>new Int16Array(data.buffer)\<close> look at the same
  memory with another element width. The byte order is the platform's; it is little-endian
  on every platform the application runs on, and the spec names little-endian as the wire
  format. The second constructor raises \<^verbatim>\<open>RangeError\<close> when the byte length is odd.
\<close>

definition int16_bytes :: "16 word \<Rightarrow> 8 word list" where
  "int16_bytes w = [ucast w, ucast (drop_bit 8 w)]"

definition Uint8Array_of_buffer :: "16 word list \<Rightarrow> 8 word list" where
  "Uint8Array_of_buffer int16 = concat (map int16_bytes int16)"

fun int16_elements :: "8 word list \<Rightarrow> 16 word list" where
  "int16_elements (lo # hi # rest) = (ucast lo OR push_bit 8 (ucast hi)) # int16_elements rest"
| "int16_elements _ = []"

definition Int16Array_of_buffer :: "8 word list \<Rightarrow> error + 16 word list" where
  "Int16Array_of_buffer bytes =
     (if odd (length bytes) then Inl RangeError else Inr (int16_elements bytes))"

text \<open>
  A binary string: JavaScript strings whose code units are below 256 are exactly the
  lists of 8-bit characters. \<^verbatim>\<open>String.fromCharCode\<close> of a byte and \<^verbatim>\<open>charCodeAt\<close>:
\<close>

definition fromCharCode :: "8 word \<Rightarrow> char" where
  "fromCharCode b = char_of (unat b)"

definition charCodeAt :: "string \<Rightarrow> nat \<Rightarrow> nat" where
  "charCodeAt s i = of_char (s ! i)"

subsection \<open>\<^verbatim>\<open>btoa\<close> and \<^verbatim>\<open>atob\<close>\<close>

text \<open>
  The two platform functions, following the HTML standard: \<^verbatim>\<open>btoa\<close> is base64 encoding
  with padding (it raises only for code units above 255, which a binary string does not
  have); \<^verbatim>\<open>atob\<close> is the standard's forgiving decoding: ASCII whitespace is removed, one
  or two trailing \<open>=\<close> are removed when the length is a multiple of four, a length that is
  1 modulo 4 or a character outside the alphabet raises \<^verbatim>\<open>InvalidCharacterError\<close>, and
  the bits left over after the last whole byte are discarded.
\<close>

definition base64_alphabet :: string where
  "base64_alphabet = ''ABCDEFGHIJKLMNOPQRSTUVWXYZabcdefghijklmnopqrstuvwxyz0123456789+/''"

definition sextet_char :: "nat \<Rightarrow> char" where
  "sextet_char n = base64_alphabet ! (n mod 64)"

fun index_of :: "'a \<Rightarrow> 'a list \<Rightarrow> nat option" where
  "index_of x [] = None"
| "index_of x (y # ys) = (if x = y then Some 0 else map_option Suc (index_of x ys))"

definition char_sextet :: "char \<Rightarrow> nat option" where
  "char_sextet c = index_of c base64_alphabet"

fun btoa :: "string \<Rightarrow> string" where
  "btoa (a # b # c # rest) =
     (let n = of_char a * 65536 + of_char b * 256 + of_char c
      in [sextet_char (n div 262144), sextet_char (n div 4096), sextet_char (n div 64),
          sextet_char n]) @ btoa rest"
| "btoa [a, b] =
     (let n = of_char a * 1024 + of_char b * 4
      in [sextet_char (n div 4096), sextet_char (n div 64), sextet_char n, CHR ''=''])"
| "btoa [a] =
     (let n = of_char a * 16
      in [sextet_char (n div 64), sextet_char n, CHR ''='', CHR ''=''])"
| "btoa [] = []"

text \<open>The sextets that \<^verbatim>\<open>btoa\<close> writes, that is its text without the padding.\<close>

fun btoa_digits :: "string \<Rightarrow> nat list" where
  "btoa_digits (a # b # c # rest) =
     (let n = of_char a * 65536 + of_char b * 256 + of_char c
      in [n div 262144 mod 64, n div 4096 mod 64, n div 64 mod 64, n mod 64]) @ btoa_digits rest"
| "btoa_digits [a, b] =
     (let n = of_char a * 1024 + of_char b * 4
      in [n div 4096 mod 64, n div 64 mod 64, n mod 64])"
| "btoa_digits [a] =
     (let n = of_char a * 16
      in [n div 64 mod 64, n mod 64])"
| "btoa_digits [] = []"

definition ascii_whitespace :: "char \<Rightarrow> bool" where
  "ascii_whitespace c = (c \<in> set [CHR 0x09, CHR 0x0A, CHR 0x0C, CHR 0x0D, CHR 0x20])"

fun strip_equals :: "string \<Rightarrow> string" where
  "strip_equals [] = []"
| "strip_equals [a] = (if a = CHR ''='' then [] else [a])"
| "strip_equals [a, b] =
     (if b = CHR ''='' then (if a = CHR ''='' then [] else [a]) else [a, b])"
| "strip_equals (a # b # c # rest) = a # strip_equals (b # c # rest)"

definition strip_padding :: "string \<Rightarrow> string" where
  "strip_padding s = (if length s mod 4 = 0 then strip_equals s else s)"

fun sextets_bytes :: "nat list \<Rightarrow> string" where
  "sextets_bytes (a # b # c # d # rest) =
     (let n = a * 262144 + b * 4096 + c * 64 + d
      in [char_of (n div 65536), char_of (n div 256), char_of n]) @ sextets_bytes rest"
| "sextets_bytes [a, b, c] =
     (let n = (a * 4096 + b * 64 + c) div 4
      in [char_of (n div 256), char_of n])"
| "sextets_bytes [a, b] = [char_of ((a * 64 + b) div 16)]"
| "sextets_bytes [a] = []"
| "sextets_bytes [] = []"

fun all_sextets :: "string \<Rightarrow> nat list option" where
  "all_sextets [] = Some []"
| "all_sextets (c # cs) =
     (case char_sextet c of
        None \<Rightarrow> None
      | Some n \<Rightarrow> map_option (Cons n) (all_sextets cs))"

definition atob :: "string \<Rightarrow> error + string" where
  "atob base64 =
     (let stripped = strip_padding (filter (\<lambda>c. \<not> ascii_whitespace c) base64)
      in if length stripped mod 4 = 1 then Inl InvalidCharacterError
         else (case all_sextets stripped of
                 None \<Rightarrow> Inl InvalidCharacterError
               | Some ns \<Rightarrow> Inr (sextets_bytes ns)))"

section \<open>The wire codec of \<^verbatim>\<open>App.tsx\<close>\<close>

subsection \<open>\<^verbatim>\<open>encode\<close> (lines 24-31)\<close>

function encode_loop :: "8 word list \<Rightarrow> nat \<Rightarrow> string \<Rightarrow> string" where
  "encode_loop bytes i binary =
     (if i < length bytes
      then encode_loop bytes (Suc i) (binary @ [fromCharCode (bytes ! i)])
      else binary)"
  by pat_completeness auto
termination
  by (relation "measure (\<lambda>(bytes, i, binary). length bytes - i)") auto

declare encode_loop.simps [simp del]

definition encode :: "8 word list \<Rightarrow> string" where
  "encode bytes = btoa (encode_loop bytes 0 [])"

subsection \<open>\<^verbatim>\<open>decode\<close> (lines 33-41)\<close>

function decode_loop :: "string \<Rightarrow> nat \<Rightarrow> 8 word list \<Rightarrow> 8 word list" where
  "decode_loop binaryString i bytes =
     (if i < length binaryString
      then decode_loop binaryString (Suc i) (bytes[i := word_of_nat (charCodeAt binaryString i)])
      else bytes)"
  by pat_completeness auto
termination
  by (relation "measure (\<lambda>(binaryString, i, bytes). length binaryString - i)") auto

declare decode_loop.simps [simp del]

definition decode :: "string \<Rightarrow> error + 8 word list" where
  "decode base64 =
     (case atob base64 of
        Inl e \<Rightarrow> Inl e
      | Inr binaryString \<Rightarrow>
          Inr (decode_loop binaryString 0 (replicate (length binaryString) 0)))"

subsection \<open>\<^verbatim>\<open>createBlob\<close> (lines 62-72)\<close>

record GenaiBlob =
  blob_data :: string
  blob_mimeType :: string

function createBlob_loop :: "number list \<Rightarrow> nat \<Rightarrow> 16 word list \<Rightarrow> 16 word list" where
  "createBlob_loop samples i int16 =
     (if i < length samples
      then createBlob_loop samples (Suc i) (int16[i := ToInt16 (times32768 (samples ! i))])
      else int16)"
  by pat_completeness auto
termination
  by (relation "measure (\<lambda>(samples, i, int16). length samples - i)") auto

declare createBlob_loop.simps [simp del]

text \<open>The \<^verbatim>\<open>int16\<close> array of \<^verbatim>\<open>createBlob\<close> when its loop has finished.\<close>

definition createBlob_int16 :: "number list \<Rightarrow> 16 word list" where
  "createBlob_int16 samples = createBlob_loop samples 0 (replicate (length samples) 0)"

definition createBlob :: "number list \<Rightarrow> GenaiBlob" where
  "createBlob samples =
     \<lparr> blob_data = encode (Uint8Array_of_buffer (createBlob_int16 samples)),
       blob_mimeType = ''audio/pcm;rate=16000'' \<rparr>"

subsection \<open>\<^verbatim>\<open>decodeAudioData\<close> (lines 43-60)\<close>

record AudioBuffer =
  numberOfChannels :: nat
  buffer_length :: nat
  sampleRate :: nat
  channels :: "number list list"

text \<open>\<^verbatim>\<open>audioBuffer.duration\<close>, in seconds.\<close>

definition duration :: "AudioBuffer \<Rightarrow> real" where
  "duration b = real (buffer_length b) / real (sampleRate b)"

text \<open>
  \<^verbatim>\<open>ctx.createBuffer(numChannels, frameCount, sampleRate)\<close>. The length argument is an
  \<^verbatim>\<open>unsigned long\<close>: a fractional \<^verbatim>\<open>frameCount\<close> is truncated (the byte arrays come from
  strings, whose length is far below \<open>2^32\<close>, so the reduction modulo \<open>2^32\<close> is not
  written). The call raises \<^verbatim>\<open>NotSupportedError\<close> for a zero argument or one outside
  its nominal range; the ranges here are those every implementation has to accept (up to
  32 channels, 8000 to 96000 Hz). The new buffer holds zeros.
\<close>

definition createBuffer :: "nat \<Rightarrow> real \<Rightarrow> nat \<Rightarrow> error + AudioBuffer" where
  "createBuffer numChannels frameCount rate =
     (let len = nat \<lfloor>frameCount\<rfloor>
      in if numChannels = 0 \<or> 32 < numChannels \<or> len = 0 \<or> rate < 8000 \<or> 96000 < rate
         then Inl NotSupportedError
         else Inr \<lparr> numberOfChannels = numChannels, buffer_length = len, sampleRate = rate,
                    channels = replicate numChannels (replicate len (Finite 0)) \<rparr>)"

text \<open>
  \<^verbatim>\<open>dataInt16[k] / 32768.0\<close>: an index beyond the array reads \<^verbatim>\<open>undefined\<close>, and the
  quotient is then \<^verbatim>\<open>NaN\<close>.
\<close>

definition sample_of :: "16 word list \<Rightarrow> nat \<Rightarrow> number" where
  "sample_of dataInt16 k =
     (if k < length dataInt16 then Finite (real_of_int (sint (dataInt16 ! k)) / 32768) else NaN)"

text \<open>
  The inner loop. A store beyond the end of a \<^verbatim>\<open>Float32Array\<close> is ignored, which is what
  list update does beyond the end of a list.
\<close>

function channel_loop ::
  "16 word list \<Rightarrow> nat \<Rightarrow> nat \<Rightarrow> real \<Rightarrow> nat \<Rightarrow> number list \<Rightarrow> number list" where
  "channel_loop dataInt16 numChannels channel frameCount i channelData =
     (if real i < frameCount
      then channel_loop dataInt16 numChannels channel frameCount (Suc i)
             (channelData[i := sample_of dataInt16 (i * numChannels + channel)])
      else channelData)"
  by pat_completeness auto
termination
proof (relation "measure (\<lambda>(dataInt16, numChannels, channel, frameCount, i, channelData).
                    nat \<lceil>frameCount\<rceil> - i)", goal_cases)
  case 1
  show ?case by simp
next
  case (2 dataInt16 numChannels channel frameCount i channelData)
  then have "int i < \<lceil>frameCount\<rceil>"
    by (simp add: less_ceiling_iff)
  then show ?case by simp
qed

declare channel_loop.simps [simp del]

function buffer_loop ::
  "16 word list \<Rightarrow> nat \<Rightarrow> real \<Rightarrow> nat \<Rightarrow> number list list \<Rightarrow> number list list" where
  "buffer_loop dataInt16 numChannels frameCount channel chans =
     (if channel < numChannels
      then buffer_loop dataInt16 numChannels frameCount (Suc channel)
             (chans[channel := channel_loop dataInt16 numChannels channel frameCount 0
                                 (chans ! channel)])
      else chans)"
  by pat_completeness auto
termination
  by (relation "measure (\<lambda>(dataInt16, numChannels, frameCount, channel, chans).
                  numChannels - channel)") auto

declare buffer_loop.simps [simp del]

text \<open>
  When \<^verbatim>\<open>numChannels\<close> is 0 the quotient \<^verbatim>\<open>frameCount\<close> is \<^verbatim>\<open>Infinity\<close> or \<^verbatim>\<open>NaN\<close> in
  JavaScript and 0 here; \<^verbatim>\<open>createBuffer\<close> raises for the channel count in both.
\<close>

definition decodeAudioData :: "8 word list \<Rightarrow> nat \<Rightarrow> nat \<Rightarrow> error + AudioBuffer" where
  "decodeAudioData bytes rate numChannels =
     (case Int16Array_of_buffer bytes of
        Inl e \<Rightarrow> Inl e
      | Inr dataInt16 \<Rightarrow>
          (let frameCount = real (length dataInt16) / real numChannels
           in case createBuffer numChannels frameCount rate of
                Inl e \<Rightarrow> Inl e
              | Inr buffer \<Rightarrow>
                  Inr (buffer\<lparr>channels :=
                         buffer_loop dataInt16 numChannels frameCount 0 (channels buffer)\<rparr>)))"

section \<open>The session held by \<^verbatim>\<open>App\<close>\<close>

subsection \<open>Messages of the remote channel\<close>

text \<open>
  The fields of a \<^verbatim>\<open>LiveServerMessage\<close> that \<^verbatim>\<open>onmessage\<close> reads. Every one of them is
  optional in the SDK's types: a transcription may come without its \<^verbatim>\<open>text\<close>, a model
  turn without its \<^verbatim>\<open>parts\<close>, a part without \<^verbatim>\<open>inlineData.data\<close>. \<open>None\<close> is
  \<^verbatim>\<open>undefined\<close>; the two flags are kept as their truth value.
\<close>

type_synonym Transcription = "string option"
  \<comment> \<open>the \<^verbatim>\<open>text\<close> of the transcription object\<close>

type_synonym Part = "string option"
  \<comment> \<open>\<^verbatim>\<open>part.inlineData?.data\<close>\<close>

type_synonym Content = "Part list option"
  \<comment> \<open>\<^verbatim>\<open>content.parts\<close>\<close>

record LiveServerContent =
  inputTranscription :: "Transcription option"
  outputTranscription :: "Transcription option"
  turnComplete :: bool
  modelTurn :: "Content option"
  interrupted :: bool

type_synonym LiveServerMessage = "LiveServerContent option"
  \<comment> \<open>\<^verbatim>\<open>message.serverContent\<close>\<close>

subsection \<open>State\<close>

datatype Speaker = User | Model

record Transcript =
  speaker :: Speaker
  transcript_text :: string

text \<open>
  An \<^verbatim>\<open>AudioBufferSourceNode\<close>: the duration of its buffer and the argument of the call
  of \<^verbatim>\<open>start\<close>, \<open>None\<close> as long as \<^verbatim>\<open>start\<close> has not been called. Nodes are told apart
  by \<open>node_id\<close>.
\<close>

record AudioBufferSourceNode =
  node_id :: nat
  node_duration :: real
  node_start :: "real option"

text \<open>The calls into the platform that release or drive a resource, in the order made.\<close>

datatype effect =
    SessionClose nat
      \<comment> \<open>\<^verbatim>\<open>session.close()\<close>, queued on the session promise\<close>
  | TrackStop nat
      \<comment> \<open>\<^verbatim>\<open>track.stop()\<close> on the tracks of a media stream\<close>
  | ClearInterval nat
  | ProcessorDisconnect nat
  | ContextClose nat
  | SourceStart nat real real
      \<comment> \<open>\<^verbatim>\<open>source.start(when)\<close>: node, \<^verbatim>\<open>when\<close>, duration of the node's buffer\<close>
  | SourceStop nat
  | Alert

text \<open>
  The React state and the refs of the component. A ref that holds a platform object holds
  its handle; \<open>None\<close> is \<^verbatim>\<open>null\<close>. \<open>closure_input\<close> and \<open>closure_output\<close> are the
  values of the constants \<^verbatim>\<open>currentInputTranscription\<close> and
  \<^verbatim>\<open>currentOutputTranscription\<close> in the render whose \<^verbatim>\<open>handleStartCall\<close> created the
  callbacks of the running session: the callbacks read these constants, not the state.
  \<open>next_id\<close> numbers the platform objects; \<open>effects\<close> is the log of platform calls.
\<close>

record state =
  isConnecting :: bool
  isCallActive :: bool
  transcripts :: "Transcript list"
  currentInputTranscription :: string
  currentOutputTranscription :: string
  localStreamRef :: "nat option"
  sessionPromiseRef :: "nat option"
  inputAudioContextRef :: "nat option"
  outputAudioContextRef :: "nat option"
  scriptProcessorRef :: "nat option"
  frameIntervalRef :: "nat option"
  audioSourcesRef :: "AudioBufferSourceNode list"
  nextStartTimeRef :: real
  closure_input :: string
  closure_output :: string
  next_id :: nat
  effects :: "effect list"

definition initial_state :: state where
  "initial_state =
     \<lparr> isConnecting = False, isCallActive = False, transcripts = [],
       currentInputTranscription = [], currentOutputTranscription = [],
       localStreamRef = None, sessionPromiseRef = None, inputAudioContextRef = None,
       outputAudioContextRef = None, scriptProcessorRef = None, frameIntervalRef = None,
       audioSourcesRef = [], nextStartTimeRef = 0,
       closure_input = [], closure_output = [],
       next_id = 1, effects = [] \<rparr>"

text \<open>How a handler ends: it returns (an \<^verbatim>\<open>async\<close> one resolves) or it raises (rejects).
  The state it leaves is kept in both cases.\<close>

datatype outcome = Normal | Raised error

definition emit :: "effect \<Rightarrow> state \<Rightarrow> state" where
  "emit e s = s\<lparr>effects := effects s @ [e]\<rparr>"

subsection \<open>Stopping the scheduled sources\<close>

text \<open>
  \<^verbatim>\<open>audioSourcesRef.current.forEach(source => source.stop())\<close>. The set iterates in
  insertion order. \<^verbatim>\<open>stop\<close> raises \<^verbatim>\<open>InvalidStateError\<close> on a node whose \<^verbatim>\<open>start\<close> has
  not been called, which ends the iteration.
\<close>

fun stop_sources :: "AudioBufferSourceNode list \<Rightarrow> state \<Rightarrow> outcome \<times> state" where
  "stop_sources [] s = (Normal, s)"
| "stop_sources (source # sources) s =
     (case node_start source of
        None \<Rightarrow> (Raised InvalidStateError, s)
      | Some when \<Rightarrow> stop_sources sources (emit (SourceStop (node_id source)) s))"

subsection \<open>\<^verbatim>\<open>cleanUp\<close> (lines 161-196)\<close>

definition close_session :: "state \<Rightarrow> state" where
  "close_session s =
     (case sessionPromiseRef s of
        None \<Rightarrow> s
      | Some session \<Rightarrow> (emit (SessionClose session) s)\<lparr>sessionPromiseRef := None\<rparr>)"

definition stop_tracks :: "state \<Rightarrow> state" where
  "stop_tracks s =
     (case localStreamRef s of
        None \<Rightarrow> s
      | Some stream \<Rightarrow> (emit (TrackStop stream) s)\<lparr>localStreamRef := None\<rparr>)"

text \<open>\<^verbatim>\<open>if (frameIntervalRef.current)\<close> is false for \<^verbatim>\<open>null\<close> and for the number 0.\<close>

definition clear_frame_interval :: "state \<Rightarrow> state" where
  "clear_frame_interval s =
     (case frameIntervalRef s of
        None \<Rightarrow> s
      | Some timer \<Rightarrow>
          if timer = 0 then s
          else (emit (ClearInterval timer) s)\<lparr>frameIntervalRef := None\<rparr>)"

definition disconnect_processor :: "state \<Rightarrow> state" where
  "disconnect_processor s =
     (case scriptProcessorRef s of
        None \<Rightarrow> s
      | Some processor \<Rightarrow> (emit (ProcessorDisconnect processor) s)\<lparr>scriptProcessorRef := None\<rparr>)"

text \<open>\<^verbatim>\<open>ref.current?.close().catch(...)\<close>, then \<^verbatim>\<open>ref.current = null\<close>: a rejection of
  the promise of \<^verbatim>\<open>close\<close> is caught.\<close>

definition close_input_context :: "state \<Rightarrow> state" where
  "close_input_context s =
     (case inputAudioContextRef s of
        None \<Rightarrow> s
      | Some ctx \<Rightarrow> emit (ContextClose ctx) s)\<lparr>inputAudioContextRef := None\<rparr>"

definition close_output_context :: "state \<Rightarrow> state" where
  "close_output_context s =
     (case outputAudioContextRef s of
        None \<Rightarrow> s
      | Some ctx \<Rightarrow> emit (ContextClose ctx) s)\<lparr>outputAudioContextRef := None\<rparr>"

definition cleanUp :: "state \<Rightarrow> outcome \<times> state" where
  "cleanUp s =
     (let s1 = close_output_context (close_input_context (disconnect_processor
                 (clear_frame_interval (stop_tracks (close_session s)))))
      in case stop_sources (audioSourcesRef s1) s1 of
           (Raised e, s2) \<Rightarrow> (Raised e, s2)
         | (Normal, s2) \<Rightarrow>
             (Normal, s2\<lparr>audioSourcesRef := [], nextStartTimeRef := 0,
                          isCallActive := False, isConnecting := False\<rparr>))"

subsection \<open>\<^verbatim>\<open>onmessage\<close> (lines 267-303)\<close>

text \<open>\<^verbatim>\<open>prev + transcription.text\<close>: a missing text is appended as the word it prints as.\<close>

definition append_text :: "string \<Rightarrow> Transcription \<Rightarrow> string" where
  "append_text prev t = prev @ (case t of None \<Rightarrow> ''undefined'' | Some fragment \<Rightarrow> fragment)"

text \<open>\<^verbatim>\<open>message.serverContent?.inputTranscription?.text || ''\<close>\<close>

definition text_or_empty :: "Transcription option \<Rightarrow> string" where
  "text_or_empty t = (case t of Some (Some fragment) \<Rightarrow> fragment | _ \<Rightarrow> [])"

text \<open>
  Lines 269-282. The two updaters append to the state; the third block builds the turns
  from the constants of the closure and the fragment of this message.
\<close>

definition handle_transcriptions :: "LiveServerMessage \<Rightarrow> state \<Rightarrow> state" where
  "handle_transcriptions message s =
     (case message of
        None \<Rightarrow> s
      | Some content \<Rightarrow>
          (let s1 = (case inputTranscription content of
                       None \<Rightarrow> s
                     | Some t \<Rightarrow> s\<lparr>currentInputTranscription :=
                                     append_text (currentInputTranscription s) t\<rparr>);
               s2 = (case outputTranscription content of
                       None \<Rightarrow> s1
                     | Some t \<Rightarrow> s1\<lparr>currentOutputTranscription :=
                                      append_text (currentOutputTranscription s1) t\<rparr>)
           in if turnComplete content
              then (let fullInput = closure_input s2 @ text_or_empty (inputTranscription content);
                        fullOutput = closure_output s2 @ text_or_empty (outputTranscription content)
                    in s2\<lparr>transcripts := transcripts s2 @
                             [\<lparr>speaker = User, transcript_text = fullInput\<rparr>,
                              \<lparr>speaker = Model, transcript_text = fullOutput\<rparr>],
                           currentInputTranscription := [],
                           currentOutputTranscription := []\<rparr>)
              else s2))"

text \<open>
  \<^verbatim>\<open>message.serverContent?.modelTurn?.parts[0]?.inlineData?.data\<close> (line 285). The index
  is not guarded: a model turn without \<^verbatim>\<open>parts\<close> raises \<^verbatim>\<open>TypeError\<close>.
\<close>

definition base64Audio_of :: "LiveServerMessage \<Rightarrow> error + string option" where
  "base64Audio_of message =
     (case message of
        None \<Rightarrow> Inr None
      | Some content \<Rightarrow>
          (case modelTurn content of
             None \<Rightarrow> Inr None
           | Some None \<Rightarrow> Inl TypeError
           | Some (Some []) \<Rightarrow> Inr None
           | Some (Some (part # rest)) \<Rightarrow> Inr part))"

text \<open>
  Lines 286-297 for a non-empty \<^verbatim>\<open>base64Audio\<close> and an output context. \<^verbatim>\<open>now\<close> is
  \<^verbatim>\<open>audioCtx.currentTime\<close>. The cursor is raised to the clock before the chunk is decoded,
  so it stays raised when decoding raises. \<^verbatim>\<open>start\<close> raises \<^verbatim>\<open>RangeError\<close> for a negative
  time. The new node joins the set after \<^verbatim>\<open>start\<close>.
\<close>

definition schedule_chunk :: "real \<Rightarrow> string \<Rightarrow> state \<Rightarrow> outcome \<times> state" where
  "schedule_chunk now base64Audio s =
     (let s1 = s\<lparr>nextStartTimeRef := max (nextStartTimeRef s) now\<rparr>
      in case decode base64Audio of
           Inl e \<Rightarrow> (Raised e, s1)
         | Inr bytes \<Rightarrow>
             (case decodeAudioData bytes 24000 1 of
                Inl e \<Rightarrow> (Raised e, s1)
              | Inr audioBuffer \<Rightarrow>
                  (let source = \<lparr> node_id = next_id s1, node_duration = duration audioBuffer,
                                   node_start = None \<rparr>;
                       s2 = s1\<lparr>next_id := Suc (next_id s1)\<rparr>;
                       startAt = nextStartTimeRef s2
                   in if startAt < 0 then (Raised RangeError, s2)
                      else (let started = source\<lparr>node_start := Some startAt\<rparr>;
                                s3 = emit (SourceStart (node_id source) startAt
                                             (node_duration source)) s2;
                                s4 = s3\<lparr>nextStartTimeRef :=
                                          nextStartTimeRef s3 + duration audioBuffer\<rparr>
                            in (Normal, s4\<lparr>audioSourcesRef :=
                                             audioSourcesRef s4 @ [started]\<rparr>)))))"

definition handle_audio :: "real \<Rightarrow> LiveServerMessage \<Rightarrow> state \<Rightarrow> outcome \<times> state" where
  "handle_audio now message s =
     (case base64Audio_of message of
        Inl e \<Rightarrow> (Raised e, s)
      | Inr None \<Rightarrow> (Normal, s)
      | Inr (Some base64Audio) \<Rightarrow>
          if base64Audio \<noteq> [] \<and> outputAudioContextRef s \<noteq> None
          then schedule_chunk now base64Audio s
          else (Normal, s))"

text \<open>Lines 298-302.\<close>

definition handle_interrupted :: "LiveServerMessage \<Rightarrow> state \<Rightarrow> outcome \<times> state" where
  "handle_interrupted message s =
     (case message of
        None \<Rightarrow> (Normal, s)
      | Some content \<Rightarrow>
          if interrupted content
          then (case stop_sources (audioSourcesRef s) s of
                  (Raised e, s1) \<Rightarrow> (Raised e, s1)
                | (Normal, s1) \<Rightarrow>
                    (Normal, s1\<lparr>audioSourcesRef := [], nextStartTimeRef := 0\<rparr>))
          else (Normal, s))"

text \<open>
  The handler awaits only \<^verbatim>\<open>decodeAudioData\<close>, whose promise is settled when it is
  returned; the handler is therefore modelled as one step.
\<close>

definition onmessage :: "real \<Rightarrow> LiveServerMessage \<Rightarrow> state \<Rightarrow> outcome \<times> state" where
  "onmessage now message s =
     (case handle_audio now message (handle_transcriptions message s) of
        (Raised e, s1) \<Rightarrow> (Raised e, s1)
      | (Normal, s1) \<Rightarrow> handle_interrupted message s1)"

subsection \<open>The other handlers\<close>

text \<open>
  \<^verbatim>\<open>handleStartCall\<close> (lines 198-328); \<open>granted\<close> tells whether \<^verbatim>\<open>getUserMedia\<close>
  resolved. The callbacks it passes to \<^verbatim>\<open>connect\<close> close over the transcription
  constants of the render it belongs to, whose values are those of the state at the call.
\<close>

definition handleStartCall :: "bool \<Rightarrow> state \<Rightarrow> outcome \<times> state" where
  "handleStartCall granted s =
     (let s1 = s\<lparr>isConnecting := True, transcripts := [],
                 currentInputTranscription := [], currentOutputTranscription := []\<rparr>
      in if granted
         then (Normal, s1\<lparr>localStreamRef := Some (next_id s),
                          outputAudioContextRef := Some (next_id s + 1),
                          sessionPromiseRef := Some (next_id s + 2),
                          closure_input := currentInputTranscription s,
                          closure_output := currentOutputTranscription s,
                          next_id := next_id s + 3\<rparr>)
         else cleanUp (emit Alert s1))"

text \<open>\<^verbatim>\<open>onopen\<close> (lines 218-266); \<open>video\<close> tells whether \<^verbatim>\<open>localVideoRef.current\<close> is set.
  Timer handles are positive.\<close>

definition onopen :: "bool \<Rightarrow> state \<Rightarrow> state" where
  "onopen video s =
     (let s1 = s\<lparr>inputAudioContextRef := Some (next_id s),
                 scriptProcessorRef := Some (next_id s + 1),
                 next_id := next_id s + 2\<rparr>;
          s2 = (if video
                then s1\<lparr>frameIntervalRef := Some (Suc (next_id s1)),
                        next_id := next_id s1 + 2\<rparr>
                else s1)
      in s2\<lparr>isConnecting := False, isCallActive := True\<rparr>)"

definition onerror :: "state \<Rightarrow> outcome \<times> state" where
  "onerror s = cleanUp (emit Alert s)"

definition onclose :: "state \<Rightarrow> outcome \<times> state" where
  "onclose s = cleanUp s"

definition handleEndCall :: "state \<Rightarrow> outcome \<times> state" where
  "handleEndCall s = cleanUp s"

text \<open>The listener of \<^verbatim>\<open>ended\<close> (line 293): \<^verbatim>\<open>audioSourcesRef.current.delete(source)\<close>.\<close>

definition source_ended :: "nat \<Rightarrow> state \<Rightarrow> state" where
  "source_ended node s =
     s\<lparr>audioSourcesRef := filter (\<lambda>source. node_id source \<noteq> node) (audioSourcesRef s)\<rparr>"

subsection \<open>Events and reachable states\<close>

datatype event =
    StartCall bool
  | SessionOpened bool
  | MessageReceived real LiveServerMessage
  | SessionError
  | SessionClosed
  | EndCall
  | Unmount
  | SourceEnded nat

fun step :: "event \<Rightarrow> state \<Rightarrow> outcome \<times> state" where
  "step (StartCall granted) s = handleStartCall granted s"
| "step (SessionOpened video) s = (Normal, onopen video s)"
| "step (MessageReceived now message) s = onmessage now message s"
| "step SessionError s = onerror s"
| "step SessionClosed s = onclose s"
| "step EndCall s = handleEndCall s"
| "step Unmount s = cleanUp s"
| "step (SourceEnded node) s = (Normal, source_ended node s)"

text \<open>A handler that raises leaves its state behind, and the next event is handled in it.\<close>

fun run :: "event list \<Rightarrow> state \<Rightarrow> state" where
  "run [] s = s"
| "run (e # es) s = run es (snd (step e s))"

inductive reachable :: "state \<Rightarrow> bool" where
  reachable_initial: "reachable initial_state"
| reachable_step: "reachable s \<Longrightarrow> reachable (snd (step e s))"

subsection \<open>Notions used by the statements\<close>

text \<open>Every node of the set has been started.\<close>

definition sources_started :: "state \<Rightarrow> bool" where
  "sources_started s = (\<forall>source \<in> set (audioSourcesRef s). node_start source \<noteq> None)"

text \<open>
  What holds in every reachable state: the nodes of the set have been started, the timer
  handle is not 0, the cursor is not negative, and the handles are distinct: those of the
  two contexts differ, the nodes of the set differ, and all are below \<open>next_id\<close>.
\<close>

definition session_invariant :: "state \<Rightarrow> bool" where
  "session_invariant s =
     (sources_started s
      \<and> frameIntervalRef s \<noteq> Some 0
      \<and> 0 \<le> nextStartTimeRef s
      \<and> (\<forall>h. inputAudioContextRef s = Some h \<longrightarrow> h < next_id s)
      \<and> (\<forall>h. outputAudioContextRef s = Some h \<longrightarrow> h < next_id s)
      \<and> (inputAudioContextRef s \<noteq> None \<longrightarrow> inputAudioContextRef s \<noteq> outputAudioContextRef s)
      \<and> (\<forall>source \<in> set (audioSourcesRef s). node_id source < next_id s)
      \<and> distinct (map node_id (audioSourcesRef s)))"

text \<open>
  The events between which the claims on scheduling are made: a message without the
  interruption flag, and the end of a source. Every other event runs \<^verbatim>\<open>cleanUp\<close> or
  starts a call.
\<close>

fun keeps_cursor :: "event \<Rightarrow> bool" where
  "keeps_cursor (MessageReceived now None) = True"
| "keeps_cursor (MessageReceived now (Some content)) = (\<not> interrupted content)"
| "keeps_cursor (SourceEnded node) = True"
| "keeps_cursor e = False"

text \<open>The effects a handler added to the log.\<close>

definition new_effects :: "state \<Rightarrow> state \<Rightarrow> effect list" where
  "new_effects s s' = drop (length (effects s)) (effects s')"

text \<open>
  No overlap: read in order, every \<^verbatim>\<open>start\<close> in the log is at or after the instant \<open>t\<close>
  at which the chunk before it ends.
\<close>

fun no_overlap :: "real \<Rightarrow> effect list \<Rightarrow> bool" where
  "no_overlap t [] = True"
| "no_overlap t (SourceStart node startAt d # es) = (t \<le> startAt \<and> no_overlap (startAt + d) es)"
| "no_overlap t (e # es) = no_overlap t es"

text \<open>
  \<^verbatim>\<open>decodeAudioData(decode(base64Audio), audioCtx, 24000, 1)\<close> of line 289, as one
  function of the text of the chunk.
\<close>

definition decode_chunk :: "string \<Rightarrow> error + AudioBuffer" where
  "decode_chunk base64Audio =
     (case decode base64Audio of
        Inl e \<Rightarrow> Inl e
      | Inr bytes \<Rightarrow> decodeAudioData bytes 24000 1)"

text \<open>
  The schedule in the words of the spec (section 4.6), to be compared with what the code
  logs: for each chunk, \<open>startAt = max(nextStartTime, deviceClockNow)\<close>, the source
  begins at \<open>startAt\<close>, and \<open>nextStartTime = startAt + chunk.durationSeconds\<close>.
  \<open>spec_schedule\<close> lists the starts, on nodes numbered from \<open>node\<close>; \<open>spec_cursor\<close>
  is the cursor after the last chunk.
\<close>

fun spec_schedule :: "real \<Rightarrow> nat \<Rightarrow> (real \<times> real) list \<Rightarrow> effect list" where
  "spec_schedule nextStartTime node [] = []"
| "spec_schedule nextStartTime node ((deviceClockNow, durationSeconds) # chunks) =
     (let startAt = max nextStartTime deviceClockNow
      in SourceStart node startAt durationSeconds
           # spec_schedule (startAt + durationSeconds) (Suc node) chunks)"

fun spec_cursor :: "real \<Rightarrow> (real \<times> real) list \<Rightarrow> real" where
  "spec_cursor nextStartTime [] = nextStartTime"
| "spec_cursor nextStartTime ((deviceClockNow, durationSeconds) # chunks) =
     (let startAt = max nextStartTime deviceClockNow
      in spec_cursor (startAt + durationSeconds) chunks)"

text \<open>What \<^verbatim>\<open>cleanUp\<close> has to release in a state, one call per resource held.\<close>

definition releases :: "state \<Rightarrow> effect list" where
  "releases s =
     (case sessionPromiseRef s of None \<Rightarrow> [] | Some session \<Rightarrow> [SessionClose session])
     @ (case localStreamRef s of None \<Rightarrow> [] | Some stream \<Rightarrow> [TrackStop stream])
     @ (case frameIntervalRef s of None \<Rightarrow> [] | Some timer \<Rightarrow> [ClearInterval timer])
     @ (case scriptProcessorRef s of None \<Rightarrow> [] | Some processor \<Rightarrow> [ProcessorDisconnect processor])
     @ (case inputAudioContextRef s of None \<Rightarrow> [] | Some ctx \<Rightarrow> [ContextClose ctx])
     @ (case outputAudioContextRef s of None \<Rightarrow> [] | Some ctx \<Rightarrow> [ContextClose ctx])
     @ map (\<lambda>source. SourceStop (node_id source)) (audioSourcesRef s)"

subsection \<open>Messages of the examples\<close>

definition no_content :: LiveServerContent where
  "no_content =
     \<lparr> inputTranscription = None, outputTranscription = None, turnComplete = False,
       modelTurn = None, interrupted = False \<rparr>"

definition user_fragment :: "string \<Rightarrow> LiveServerMessage" where
  "user_fragment fragment = Some (no_content\<lparr>inputTranscription := Some (Some fragment)\<rparr>)"

definition model_fragment :: "string \<Rightarrow> LiveServerMessage" where
  "model_fragment fragment = Some (no_content\<lparr>outputTranscription := Some (Some fragment)\<rparr>)"

definition turn_complete :: LiveServerMessage where
  "turn_complete = Some (no_content\<lparr>turnComplete := True\<rparr>)"

definition audio_chunk :: "string \<Rightarrow> LiveServerMessage" where
  "audio_chunk base64Audio = Some (no_content\<lparr>modelTurn := Some (Some [Some base64Audio])\<rparr>)"

definition interruption :: LiveServerMessage where
  "interruption = Some (no_content\<lparr>interrupted := True\<rparr>)"

text \<open>
  A sequence of chunks, each with the clock at its arrival, its text and the buffer it
  decodes to: the messages that carry them, and their clocks and durations.
\<close>

definition chunk_events :: "(real \<times> string \<times> AudioBuffer) list \<Rightarrow> event list" where
  "chunk_events chunks =
     map (\<lambda>(now, base64Audio, audioBuffer). MessageReceived now (audio_chunk base64Audio)) chunks"

definition chunk_durations :: "(real \<times> string \<times> AudioBuffer) list \<Rightarrow> (real \<times> real) list" where
  "chunk_durations chunks = map (\<lambda>(now, base64Audio, audioBuffer). (now, duration audioBuffer)) chunks"

text \<open>A call that has been started and opened, with the camera shown.\<close>

definition open_call :: state where
  "open_call = run [StartCall True, SessionOpened True] initial_state"

section \<open>Properties of the codec\<close>

subsection \<open>The loops and the views of a buffer\<close>

lemma encode_loop_eq:
  "encode_loop bytes i binary = binary @ map fromCharCode (drop i bytes)"
proof (induction bytes i binary rule: encode_loop.induct)
  case (1 bytes i binary)
  show ?case
  proof (cases "i < length bytes")
    case True
    then show ?thesis
      using 1 by (subst encode_loop.simps) (simp add: Cons_nth_drop_Suc [symmetric])
  next
    case False
    then show ?thesis by (subst encode_loop.simps) simp
  qed
qed

lemma decode_loop_eq:
  "length bytes = length s \<Longrightarrow> i \<le> length s \<Longrightarrow>
   decode_loop s i bytes = take i bytes @ map (\<lambda>c. word_of_nat (of_char c)) (drop i s)"
proof (induction s i bytes rule: decode_loop.induct)
  case (1 s i bytes)
  show ?case
  proof (cases "i < length s")
    case True
    with 1 have "decode_loop s (Suc i) (bytes[i := word_of_nat (charCodeAt s i)])
        = take (Suc i) (bytes[i := word_of_nat (charCodeAt s i)])
          @ map (\<lambda>c. word_of_nat (of_char c)) (drop (Suc i) s)"
      by simp
    with True 1 show ?thesis
      by (subst decode_loop.simps)
         (simp add: take_Suc_conv_app_nth charCodeAt_def Cons_nth_drop_Suc [symmetric])
  next
    case False
    with 1 show ?thesis by (subst decode_loop.simps) simp
  qed
qed

lemma createBlob_loop_eq:
  "length int16 = length samples \<Longrightarrow> i \<le> length samples \<Longrightarrow>
   createBlob_loop samples i int16
     = take i int16 @ map (\<lambda>v. ToInt16 (times32768 v)) (drop i samples)"
proof (induction samples i int16 rule: createBlob_loop.induct)
  case (1 samples i int16)
  show ?case
  proof (cases "i < length samples")
    case True
    with 1 have "createBlob_loop samples (Suc i) (int16[i := ToInt16 (times32768 (samples ! i))])
        = take (Suc i) (int16[i := ToInt16 (times32768 (samples ! i))])
          @ map (\<lambda>v. ToInt16 (times32768 v)) (drop (Suc i) samples)"
      by simp
    with True 1 show ?thesis
      by (subst createBlob_loop.simps)
         (simp add: take_Suc_conv_app_nth Cons_nth_drop_Suc [symmetric])
  next
    case False
    with 1 show ?thesis by (subst createBlob_loop.simps) simp
  qed
qed

lemma createBlob_int16_eq:
  "createBlob_int16 samples = map (\<lambda>v. ToInt16 (times32768 v)) samples"
  by (simp add: createBlob_int16_def createBlob_loop_eq)

lemma int16_bytes_inverse:
  "(ucast (ucast (w::16 word) :: 8 word) :: 16 word)
     OR push_bit 8 (ucast (ucast (drop_bit 8 w) :: 8 word)) = w"
  by (rule bit_word_eqI) (auto simp add: bit_simps)

lemma int16_elements_bytes:
  "int16_elements (Uint8Array_of_buffer ws) = ws"
  by (induction ws) (simp_all add: Uint8Array_of_buffer_def int16_bytes_def int16_bytes_inverse)

lemma length_Uint8Array_of_buffer:
  "length (Uint8Array_of_buffer ws) = 2 * length ws"
  by (induction ws) (simp_all add: Uint8Array_of_buffer_def int16_bytes_def)

lemma Int16Array_of_Uint8Array:
  "Int16Array_of_buffer (Uint8Array_of_buffer ws) = Inr ws"
  by (simp add: Int16Array_of_buffer_def length_Uint8Array_of_buffer int16_elements_bytes)

lemma byte_char_inverse:
  "(word_of_nat (of_char (fromCharCode b)) :: 8 word) = b"
proof -
  have "unat b < 256" using unsigned_less [of b, where ?'a = nat] by simp
  then show ?thesis by (simp add: fromCharCode_def)
qed

subsection \<open>Base64\<close>

lemma index_of_nth:
  "distinct xs \<Longrightarrow> n < length xs \<Longrightarrow> index_of (xs ! n) xs = Some n"
proof (induction xs arbitrary: n)
  case Nil
  then show ?case by simp
next
  case (Cons y ys)
  show ?case
  proof (cases n)
    case 0
    then show ?thesis by simp
  next
    case (Suc m)
    with Cons.prems have "ys ! m \<noteq> y" by auto
    with Suc Cons show ?thesis by simp
  qed
qed

lemma length_base64_alphabet: "length base64_alphabet = 64"
  by (simp add: base64_alphabet_def)

lemma distinct_base64_alphabet: "distinct base64_alphabet"
  by (simp add: base64_alphabet_def)

lemma char_sextet_sextet_char: "char_sextet (sextet_char n) = Some (n mod 64)"
  by (simp add: char_sextet_def sextet_char_def index_of_nth distinct_base64_alphabet
      length_base64_alphabet)

lemma sextet_char_in_alphabet: "sextet_char n \<in> set base64_alphabet"
  by (simp add: sextet_char_def length_base64_alphabet)

lemma sextet_char_not_equals: "sextet_char n \<noteq> CHR ''=''"
proof
  assume "sextet_char n = CHR ''=''"
  with sextet_char_in_alphabet [of n] have "CHR ''='' \<in> set base64_alphabet" by simp
  then show False by (simp add: base64_alphabet_def)
qed

lemma sextet_char_not_whitespace: "\<not> ascii_whitespace (sextet_char n)"
proof
  assume "ascii_whitespace (sextet_char n)"
  then have "\<exists>c \<in> set base64_alphabet. ascii_whitespace c"
    using sextet_char_in_alphabet [of n] by blast
  then show False by (simp add: base64_alphabet_def ascii_whitespace_def)
qed

lemma equals_not_whitespace: "\<not> ascii_whitespace (CHR ''='')"
  by (simp add: ascii_whitespace_def)

lemma btoa_no_whitespace: "filter (\<lambda>c. \<not> ascii_whitespace c) (btoa s) = btoa s"
  by (induction s rule: btoa.induct)
     (simp_all add: Let_def sextet_char_not_whitespace equals_not_whitespace)

lemma length_btoa_mod: "length (btoa s) mod 4 = 0"
  by (induction s rule: btoa.induct) (simp_all add: Let_def)

lemma length_btoa_ge: "s \<noteq> [] \<Longrightarrow> 2 \<le> length (btoa s)"
  by (induction s rule: btoa.induct) (simp_all add: Let_def)

lemma sextet_char_mod: "sextet_char (n mod 64) = sextet_char n"
  by (simp add: sextet_char_def)

lemma strip_equals_Cons:
  "2 \<le> length zs \<Longrightarrow> strip_equals (x # zs) = x # strip_equals zs"
proof (cases zs)
  case Nil
  assume "2 \<le> length zs"
  with Nil show ?thesis by simp
next
  case (Cons a as)
  assume "2 \<le> length zs"
  with Cons obtain b bs where "as = b # bs" by (cases as) auto
  with Cons show ?thesis by simp
qed

lemma strip_equals_append:
  "2 \<le> length ys \<Longrightarrow> strip_equals (xs @ ys) = xs @ strip_equals ys"
  by (induction xs) (simp_all add: strip_equals_Cons)

lemmas base64_unfold =
  btoa.simps btoa_digits.simps Let_def append_Cons append_Nil strip_equals.simps
  sextet_char_not_equals sextet_char_mod if_False if_True list.map refl simp_thms

lemma strip_equals_btoa:
  "strip_equals (btoa s) = map sextet_char (btoa_digits s)"
proof (induction s rule: btoa.induct)
  case (1 a b c rest)
  show ?case
  proof (cases rest)
    case Nil
    show ?thesis unfolding Nil by (simp only: base64_unfold)
  next
    case (Cons r rs)
    then have "2 \<le> length (btoa rest)" by (simp add: length_btoa_ge)
    then have "strip_equals (btoa (a # b # c # rest)) =
        (let n = of_char a * 65536 + of_char b * 256 + of_char c
         in [sextet_char (n div 262144), sextet_char (n div 4096), sextet_char (n div 64),
             sextet_char n]) @ strip_equals (btoa rest)"
      by (simp only: btoa.simps strip_equals_append)
    then show ?thesis
      by (simp only: 1 base64_unfold map_append)
  qed
next
  case (2 a b)
  show ?case by (simp only: base64_unfold)
next
  case (3 a)
  show ?case by (simp only: base64_unfold)
next
  case 4
  show ?case by simp
qed

lemma all_sextets_map:
  "all_sextets (map sextet_char ns) = Some (map (\<lambda>n. n mod 64) ns)"
  by (induction ns) (simp_all add: char_sextet_sextet_char)

lemma btoa_digits_lt: "\<forall>n \<in> set (btoa_digits s). n < 64"
  by (induction s rule: btoa_digits.induct) (simp_all add: Let_def)

lemma map_mod_btoa_digits: "map (\<lambda>n. n mod 64) (btoa_digits s) = btoa_digits s"
  using btoa_digits_lt [of s] by (simp add: map_idI)

lemma length_btoa_digits: "length (btoa_digits s) mod 4 \<noteq> 1"
  by (induction s rule: btoa_digits.induct) (simp_all add: Let_def)

lemma digits64:
  fixes n :: nat
  assumes "n < 16777216"
  shows "(n div 262144 mod 64) * 262144 + (n div 4096 mod 64) * 4096 + (n div 64 mod 64) * 64
           + n mod 64 = n"
proof -
  define q1 r0 where "q1 = n div 64" and "r0 = n mod 64"
  define q2 r1 where "q2 = q1 div 64" and "r1 = q1 mod 64"
  define q3 r2 where "q3 = q2 div 64" and "r2 = q2 mod 64"
  have e1: "n = q1 * 64 + r0" by (simp add: q1_def r0_def)
  have e2: "q1 = q2 * 64 + r1" by (simp add: q2_def r1_def)
  have e3: "q2 = q3 * 64 + r2" by (simp add: q3_def r2_def)
  have d2: "n div 4096 = q2" by (simp add: q2_def q1_def div_mult2_eq)
  have d3: "n div 262144 = q3" by (simp add: q3_def q2_def q1_def div_mult2_eq)
  have "q3 < 64" using assms d3 by (simp add: less_mult_imp_div_less flip: d3)
  then have m3: "q3 mod 64 = q3" by simp
  have "q3 * 262144 + r2 * 4096 + r1 * 64 + r0 = n"
    using e1 e2 e3 by simp
  then show ?thesis
    by (simp only: d2 d3 m3 flip: q1_def r0_def r1_def r2_def)
qed

lemma div_mod_base:
  fixes q r k :: nat
  assumes "r < k"
  shows "(q * k + r) div k = q" "(q * k + r) mod k = r"
  using assms by simp_all

lemma group3_bytes:
  fixes A B C :: nat
  assumes "A < 256" "B < 256" "C < 256"
  defines "n \<equiv> A * 65536 + B * 256 + C"
  shows "n div 65536 = A" "n div 256 mod 256 = B" "n mod 256 = C" "n < 16777216"
proof -
  have n: "n = (A * 256 + B) * 256 + C" by (simp add: n_def)
  show "n mod 256 = C" unfolding n using assms(3) by (rule div_mod_base)
  have "n div 256 = A * 256 + B" unfolding n using assms(3) by (rule div_mod_base)
  moreover have "(A * 256 + B) mod 256 = B" using assms(2) by (rule div_mod_base)
  ultimately show "n div 256 mod 256 = B" by simp
  have "B * 256 + C < 65536" using assms by simp
  then have "(A * 65536 + (B * 256 + C)) div 65536 = A" by (rule div_mod_base)
  then show "n div 65536 = A" by (simp add: n_def add.assoc)
  show "n < 16777216" using assms by (simp add: n_def)
qed

lemma digits64_3:
  fixes n :: nat
  assumes "n < 262144"
  shows "(n div 4096 mod 64) * 4096 + (n div 64 mod 64) * 64 + n mod 64 = n"
  using digits64 [of n] assms by simp

lemma digits64_2:
  fixes n :: nat
  assumes "n < 4096"
  shows "(n div 64 mod 64) * 64 + n mod 64 = n"
  using digits64 [of n] assms by simp

lemma group2:
  fixes A B :: nat
  assumes "A < 256" "B < 256"
  defines "n \<equiv> A * 1024 + B * 4"
  shows "((n div 4096 mod 64) * 4096 + (n div 64 mod 64) * 64 + n mod 64) div 4 = A * 256 + B"
proof -
  have "n < 262144" using assms by (simp add: n_def)
  then have a: "(n div 4096 mod 64) * 4096 + (n div 64 mod 64) * 64 + n mod 64 = n"
    by (rule digits64_3)
  have b: "n div 4 = A * 256 + B" by (simp add: n_def)
  show ?thesis by (simp only: a b)
qed

lemma group1:
  fixes A :: nat
  assumes "A < 256"
  defines "n \<equiv> A * 16"
  shows "((n div 64 mod 64) * 64 + n mod 64) div 16 = A"
proof -
  have "n < 4096" using assms by (simp add: n_def)
  then have a: "(n div 64 mod 64) * 64 + n mod 64 = n"
    by (rule digits64_2)
  have b: "n div 16 = A" by (simp add: n_def)
  show ?thesis by (simp only: a b)
qed

lemma pair_bytes:
  fixes A B :: nat
  assumes "B < 256"
  shows "(A * 256 + B) div 256 = A" "(A * 256 + B) mod 256 = B"
  using assms by simp_all

lemma sextets_bytes_digits: "sextets_bytes (btoa_digits s) = s"
proof (induction s rule: btoa_digits.induct)
  case (1 a b c rest)
  define n :: nat where "n = of_char a * 65536 + of_char b * 256 + of_char c"
  have b: "n div 65536 = of_char a" "n div 256 mod 256 = of_char b" "n mod 256 = of_char c"
    and "n < 16777216"
    unfolding n_def by (rule group3_bytes; simp)+
  then have n: "(n div 262144 mod 64) * 262144 + (n div 4096 mod 64) * 4096
           + (n div 64 mod 64) * 64 + n mod 64 = n"
    by (simp only: digits64)
  have c: "char_of (n div 65536) = a" "char_of (n div 256) = b" "char_of n = c"
    using b by (metis char_of_char char_of_mod_256)+
  have "sextets_bytes (btoa_digits (a # b # c # rest))
      = sextets_bytes ([n div 262144 mod 64, n div 4096 mod 64, n div 64 mod 64, n mod 64]
          @ btoa_digits rest)"
    by (simp only: btoa_digits.simps Let_def n_def)
  also have "\<dots> = [a, b, c] @ sextets_bytes (btoa_digits rest)"
    by (simp only: append_Cons append_Nil sextets_bytes.simps Let_def n c)
  finally show ?case using 1 by simp
next
  case (2 a b)
  define n :: nat where "n = of_char a * 1024 + of_char b * 4"
  define m :: nat where "m = of_char a * 256 + of_char b"
  have n: "((n div 4096 mod 64) * 4096 + (n div 64 mod 64) * 64 + n mod 64) div 4 = m"
    unfolding n_def m_def by (rule group2) simp_all
  have "m div 256 = of_char a" "m mod 256 = of_char b"
    unfolding m_def by (rule pair_bytes; simp)+
  then have c: "char_of (m div 256) = a" "char_of m = b"
    by (metis char_of_char char_of_mod_256)+
  have "sextets_bytes (btoa_digits [a, b])
      = sextets_bytes [n div 4096 mod 64, n div 64 mod 64, n mod 64]"
    by (simp only: btoa_digits.simps Let_def n_def)
  also have "\<dots> = [a, b]"
    by (simp only: sextets_bytes.simps Let_def n c)
  finally show ?case .
next
  case (3 a)
  define n :: nat where "n = of_char a * 16"
  have n: "((n div 64 mod 64) * 64 + n mod 64) div 16 = of_char a"
    unfolding n_def by (rule group1) simp
  have "sextets_bytes (btoa_digits [a]) = sextets_bytes [n div 64 mod 64, n mod 64]"
    by (simp only: btoa_digits.simps Let_def n_def)
  also have "\<dots> = [a]"
    by (simp only: sextets_bytes.simps n char_of_char)
  finally show ?case .
next
  case 4
  then show ?case by simp
qed

lemma atob_btoa: "atob (btoa s) = Inr s"
proof -
  have "strip_padding (btoa s) = map sextet_char (btoa_digits s)"
    by (simp add: strip_padding_def strip_equals_btoa length_btoa_mod)
  then show ?thesis
    using length_btoa_digits [of s]
    by (simp add: atob_def btoa_no_whitespace all_sextets_map map_mod_btoa_digits
        sextets_bytes_digits)
qed

subsection \<open>Quantisation and decoding\<close>

lemma sint_ToInt16:
  "sint (word_of_int k :: 16 word) = (k + 32768) mod 65536 - 32768"
  by (simp add: signed_of_int signed_take_bit_eq_take_bit_shift take_bit_eq_mod)

lemma trunc_bounds:
  assumes "- 1 \<le> r" "r < 1"
  shows "- 32768 \<le> trunc (r * 32768)" "trunc (r * 32768) \<le> 32767"
proof -
  show "- 32768 \<le> trunc (r * 32768)"
  proof (cases "0 \<le> r")
    case True
    then show ?thesis by (simp add: trunc_def)
  next
    case False
    have "(- 32768 :: real) \<le> r * 32768" using assms by simp
    then have "- 32768 \<le> \<lceil>r * 32768\<rceil>"
      by (metis ceiling_mono ceiling_of_int of_int_minus of_int_numeral)
    with False show ?thesis by (simp add: trunc_def)
  qed
  show "trunc (r * 32768) \<le> 32767"
  proof (cases "0 \<le> r")
    case True
    have "r * 32768 < 32768" using assms by simp
    then have "\<lfloor>r * 32768\<rfloor> < 32768" by (simp add: floor_less_iff)
    with True show ?thesis by (simp add: trunc_def)
  next
    case False
    then have "r * 32768 \<le> 0" by simp
    then have "\<lceil>r * 32768\<rceil> \<le> 0" by (simp add: ceiling_le_iff)
    with False show ?thesis by (simp add: trunc_def)
  qed
qed

lemma trunc_error: "\<bar>x - real_of_int (trunc x)\<bar> < 1"
  unfolding trunc_def by (cases "0 \<le> x") (simp_all; linarith)+

lemma quantise_error:
  "\<bar>r - real_of_int (trunc (r * 32768)) / 32768\<bar> < 1 / 32768"
proof -
  have "\<bar>r * 32768 - real_of_int (trunc (r * 32768))\<bar> < 1" by (rule trunc_error)
  moreover have "r - real_of_int (trunc (r * 32768)) / 32768
      = (r * 32768 - real_of_int (trunc (r * 32768))) / 32768" by simp
  ultimately show ?thesis
    by (simp only: abs_divide)
qed

lemma sint_in_range:
  assumes "- 32768 \<le> k" "k \<le> 32767"
  shows "sint (word_of_int k :: 16 word) = k"
  using assms by (simp add: sint_ToInt16)

lemma decode_encode: "decode (encode bytes) = Inr bytes"
proof -
  have "map (\<lambda>c. word_of_nat (of_char c) :: 8 word) (map fromCharCode bytes) = bytes"
    by (simp add: byte_char_inverse o_def)
  then show ?thesis
    by (simp add: decode_def encode_def encode_loop_eq atob_btoa decode_loop_eq)
qed

lemma channel_loop_done:
  "length channelData \<le> i \<Longrightarrow>
   channel_loop dataInt16 numChannels channel frameCount i channelData = channelData"
proof (induction dataInt16 numChannels channel frameCount i channelData
       rule: channel_loop.induct)
  case (1 dataInt16 numChannels channel frameCount i channelData)
  then show ?case by (subst channel_loop.simps) (simp add: list_update_beyond)
qed

lemma channel_loop_eq:
  "length channelData = nat \<lfloor>frameCount\<rfloor> \<Longrightarrow> i \<le> length channelData \<Longrightarrow>
   channel_loop dataInt16 numChannels channel frameCount i channelData
     = take i channelData
       @ map (\<lambda>k. sample_of dataInt16 (k * numChannels + channel)) [i..<length channelData]"
proof (induction dataInt16 numChannels channel frameCount i channelData
       rule: channel_loop.induct)
  case (1 dataInt16 numChannels channel frameCount i channelData)
  let ?v = "sample_of dataInt16 (i * numChannels + channel)"
  show ?case
  proof (cases "real i < frameCount")
    case True
    show ?thesis
    proof (cases "i < length channelData")
      case less: True
      with True 1 have "channel_loop dataInt16 numChannels channel frameCount (Suc i)
            (channelData[i := ?v])
          = take (Suc i) (channelData[i := ?v])
            @ map (\<lambda>k. sample_of dataInt16 (k * numChannels + channel))
                [Suc i..<length channelData]"
        by simp
      with True less show ?thesis
        by (subst channel_loop.simps) (simp add: take_Suc_conv_app_nth upt_conv_Cons)
    next
      case False
      with 1 have "i = length channelData" by simp
      with True show ?thesis
        by (subst channel_loop.simps) (simp add: channel_loop_done list_update_beyond)
    qed
  next
    case False
    then have "frameCount \<le> real i" by simp
    then have "\<lfloor>frameCount\<rfloor> \<le> int i" by (simp add: floor_le_iff) 
    with 1 have "i = length channelData" by simp
    with False show ?thesis by (subst channel_loop.simps) simp
  qed
qed

lemma buffer_loop_eq:
  "length chans = numChannels \<Longrightarrow> \<forall>c \<in> set chans. length c = nat \<lfloor>frameCount\<rfloor> \<Longrightarrow>
   channel \<le> numChannels \<Longrightarrow>
   buffer_loop dataInt16 numChannels frameCount channel chans
     = take channel chans
       @ map (\<lambda>c. map (\<lambda>k. sample_of dataInt16 (k * numChannels + c)) [0..<nat \<lfloor>frameCount\<rfloor>])
           [channel..<numChannels]"
proof (induction dataInt16 numChannels frameCount channel chans rule: buffer_loop.induct)
  case (1 dataInt16 numChannels frameCount channel chans)
  let ?row = "\<lambda>c. map (\<lambda>k. sample_of dataInt16 (k * numChannels + c)) [0..<nat \<lfloor>frameCount\<rfloor>]"
  show ?case
  proof (cases "channel < numChannels")
    case True
    with 1 have len: "length (chans ! channel) = nat \<lfloor>frameCount\<rfloor>" by simp
    have row: "channel_loop dataInt16 numChannels channel frameCount 0 (chans ! channel)
        = ?row channel"
      using len by (simp add: channel_loop_eq)
    have "\<forall>c \<in> set (chans[channel := ?row channel]). length c = nat \<lfloor>frameCount\<rfloor>"
      using 1(3) by (auto dest!: set_update_subset_insert [THEN subsetD])
    with True 1 row
    have "buffer_loop dataInt16 numChannels frameCount (Suc channel) (chans[channel := ?row channel])
        = take (Suc channel) (chans[channel := ?row channel])
          @ map ?row [Suc channel..<numChannels]"
      by simp
    with True 1(2) row show ?thesis
      by (subst buffer_loop.simps) (simp add: take_Suc_conv_app_nth upt_conv_Cons)
  next
    case False
    with 1 show ?thesis by (subst buffer_loop.simps) simp
  qed
qed

lemma length_int16_elements: "length (int16_elements bytes) = length bytes div 2"
  by (induction bytes rule: int16_elements.induct) simp_all

lemma floor_frameCount:
  "nat \<lfloor>real n / real numChannels\<rfloor> = n div numChannels"
  by (simp add: floor_divide_of_nat_eq)

lemma createBuffer_frameCount:
  "createBuffer numChannels (real n / real numChannels) rate =
     (if numChannels = 0 \<or> 32 < numChannels \<or> n div numChannels = 0
         \<or> rate < 8000 \<or> 96000 < rate
      then Inl NotSupportedError
      else Inr \<lparr> numberOfChannels = numChannels, buffer_length = n div numChannels,
                 sampleRate = rate,
                 channels = replicate numChannels (replicate (n div numChannels) (Finite 0)) \<rparr>)"
  unfolding createBuffer_def floor_frameCount Let_def ..

text \<open>What the two loops of decodeAudioData compute.\<close>

lemma decodeAudioData_eq:
  "decodeAudioData bytes rate numChannels =
     (if odd (length bytes) then Inl RangeError
      else if numChannels = 0 \<or> 32 < numChannels \<or> length bytes div 2 div numChannels = 0
              \<or> rate < 8000 \<or> 96000 < rate
      then Inl NotSupportedError
      else Inr \<lparr> numberOfChannels = numChannels,
                 buffer_length = length bytes div 2 div numChannels,
                 sampleRate = rate,
                 channels = map (\<lambda>c. map (\<lambda>k. sample_of (int16_elements bytes) (k * numChannels + c))
                                          [0..<length bytes div 2 div numChannels])
                              [0..<numChannels] \<rparr>)"
proof (cases "odd (length bytes)")
  case True
  then show ?thesis by (simp add: decodeAudioData_def Int16Array_of_buffer_def)
next
  case even: False
  show ?thesis
  proof (cases "numChannels = 0 \<or> 32 < numChannels \<or> length bytes div 2 div numChannels = 0
              \<or> rate < 8000 \<or> 96000 < rate")
    case True
    with even show ?thesis
      unfolding decodeAudioData_def Int16Array_of_buffer_def Let_def length_int16_elements
        createBuffer_frameCount
      by (simp add: length_int16_elements)
  next
    case False
    with even show ?thesis
      unfolding decodeAudioData_def Int16Array_of_buffer_def Let_def length_int16_elements
        createBuffer_frameCount
      by (simp add: buffer_loop_eq floor_frameCount length_int16_elements)
  qed
qed

section \<open>The claims about the codec\<close>

lemma createBlob_eq:
  "createBlob samples =
     \<lparr> blob_data = btoa (map fromCharCode
                     (concat (map (\<lambda>v. int16_bytes (ToInt16 (times32768 v))) samples))),
       blob_mimeType = ''audio/pcm;rate=16000'' \<rparr>"
  by (simp add: createBlob_def encode_def encode_loop_eq createBlob_int16_eq
      Uint8Array_of_buffer_def map_concat o_def)

lemma decode_createBlob:
  "decode (blob_data (createBlob samples))
     = Inr (Uint8Array_of_buffer (map (\<lambda>v. ToInt16 (times32768 v)) samples))"
  by (simp add: createBlob_def decode_encode createBlob_int16_eq)

lemma roundtrip_eq:
  assumes "samples \<noteq> []" "8000 \<le> rate" "rate \<le> 96000"
  shows "decodeAudioData (Uint8Array_of_buffer (map (\<lambda>v. ToInt16 (times32768 v)) samples)) rate 1
    = Inr \<lparr> numberOfChannels = 1, buffer_length = length samples, sampleRate = rate,
             channels = [map (\<lambda>v. Finite (real_of_int (sint (ToInt16 (times32768 v))) / 32768))
                           samples] \<rparr>"
proof -
  let ?ws = "map (\<lambda>v. ToInt16 (times32768 v)) samples"
  have "map (\<lambda>k. sample_of ?ws k) [0..<length samples]
      = map (\<lambda>v. Finite (real_of_int (sint (ToInt16 (times32768 v))) / 32768)) samples"
    by (rule nth_equalityI) (simp_all add: sample_of_def)
  with assms show ?thesis
    by (simp add: decodeAudioData_eq length_Uint8Array_of_buffer int16_elements_bytes)
qed

text \<open>
  Claim C4, as amended. For a block that is not empty and whose samples are finite and lie
  in the interval from \<open>-1\<close> (included) to \<open>1\<close> (excluded), the text written by
  \<^verbatim>\<open>createBlob\<close> is decoded by \<^verbatim>\<open>decode\<close> and \<^verbatim>\<open>decodeAudioData\<close> (one channel, a
  sample rate that \<^verbatim>\<open>createBuffer\<close> accepts) into a buffer of as many frames, each frame
  being the sample truncated to a multiple of \<open>1/32768\<close>, less than one such step away
  from the sample.
\<close>

theorem roundtrip_quantised:
  assumes "samples \<noteq> []"
    and "\<forall>v \<in> set samples. \<exists>r. v = Finite r \<and> - 1 \<le> r \<and> r < 1"
    and "8000 \<le> rate" and "rate \<le> 96000"
  shows "\<exists>bytes buffer.
           decode (blob_data (createBlob samples)) = Inr bytes
         \<and> decodeAudioData bytes rate 1 = Inr buffer
         \<and> numberOfChannels buffer = 1
         \<and> buffer_length buffer = length samples
         \<and> length (channels buffer ! 0) = length samples
         \<and> (\<forall>i < length samples. \<exists>r q.
                samples ! i = Finite r
              \<and> channels buffer ! 0 ! i = Finite q
              \<and> q = real_of_int (trunc (r * 32768)) / 32768
              \<and> \<bar>r - q\<bar> < 1 / 32768)"
proof -
  let ?bytes = "Uint8Array_of_buffer (map (\<lambda>v. ToInt16 (times32768 v)) samples)"
  let ?buffer = "\<lparr> numberOfChannels = 1, buffer_length = length samples, sampleRate = rate,
             channels = [map (\<lambda>v. Finite (real_of_int (sint (ToInt16 (times32768 v))) / 32768))
                           samples] \<rparr>"
  have "\<exists>r q. samples ! i = Finite r \<and> channels ?buffer ! 0 ! i = Finite q
              \<and> q = real_of_int (trunc (r * 32768)) / 32768 \<and> \<bar>r - q\<bar> < 1 / 32768"
    if "i < length samples" for i
  proof -
    from that assms(2) obtain r where r: "samples ! i = Finite r" "- 1 \<le> r" "r < 1"
      by (metis nth_mem)
    then have s: "sint (ToInt16 (times32768 (samples ! i))) = trunc (r * 32768)"
      by (simp add: sint_in_range trunc_bounds)
    have "channels ?buffer ! 0 ! i
        = Finite (real_of_int (sint (ToInt16 (times32768 (samples ! i)))) / 32768)"
      using that by simp
    then have c: "channels ?buffer ! 0 ! i = Finite (real_of_int (trunc (r * 32768)) / 32768)"
      by (simp only: s)
    show ?thesis
      by (intro exI conjI) (rule r(1), rule c, rule refl, rule quantise_error)
  qed
  then have q: "\<forall>i < length samples. \<exists>r q.
                samples ! i = Finite r
              \<and> channels ?buffer ! 0 ! i = Finite q
              \<and> q = real_of_int (trunc (r * 32768)) / 32768
              \<and> \<bar>r - q\<bar> < 1 / 32768"
    by blast
  have d: "decode (blob_data (createBlob samples)) = Inr ?bytes"
    by (rule decode_createBlob)
  have e: "decodeAudioData ?bytes rate 1 = Inr ?buffer"
    using assms(1,3,4) by (rule roundtrip_eq)
  have l: "numberOfChannels ?buffer = 1" "buffer_length ?buffer = length samples"
    "length (channels ?buffer ! 0) = length samples"
    by simp_all
  from d e l q show ?thesis by blast
qed

text \<open>The theorem at the block \<open>[0.5, -1.0]\<close> and the rate of the application.\<close>

theorem roundtrip_quantised_witness:
  "\<exists>bytes buffer.
     decode (blob_data (createBlob [Finite (1 / 2), Finite (- 1)])) = Inr bytes
   \<and> decodeAudioData bytes 24000 1 = Inr buffer
   \<and> numberOfChannels buffer = 1
   \<and> buffer_length buffer = length [Finite (1 / 2), Finite (- 1)]
   \<and> length (channels buffer ! 0) = length [Finite (1 / 2), Finite (- 1)]
   \<and> (\<forall>i < length [Finite (1 / 2), Finite (- 1)]. \<exists>r q.
          [Finite (1 / 2), Finite (- 1)] ! i = Finite r
        \<and> channels buffer ! 0 ! i = Finite q
        \<and> q = real_of_int (trunc (r * 32768)) / 32768
        \<and> \<bar>r - q\<bar> < 1 / 32768)"
proof (rule roundtrip_quantised)
  have "\<exists>r::real. Finite (1 / 2) = Finite r \<and> - 1 \<le> r \<and> r < 1"
    by (rule exI [of _ "1 / 2"]) simp
  then show "\<forall>v \<in> set [Finite (1 / 2), Finite (- 1)]. \<exists>r. v = Finite r \<and> - 1 \<le> r \<and> r < 1"
    by simp
qed simp_all

text \<open>
  Claim C4 as it is written, for every block, fails at the block that holds the one sample
  \<open>1.0\<close>: it is sent as the bytes \<open>00 80\<close> and comes back as \<open>-1.0\<close>, at distance 2.
\<close>

theorem roundtrip_unit_sample_counterexample:
  "decode (blob_data (createBlob [Finite 1])) = Inr [0, 128]
   \<and> decodeAudioData [0, 128] 24000 1
       = Inr \<lparr> numberOfChannels = 1, buffer_length = 1, sampleRate = 24000,
                channels = [[Finite (- 1)]] \<rparr>
   \<and> \<not> \<bar>1 - (- 1 :: real)\<bar> \<le> 1 / 32768"
proof -
  have "Uint8Array_of_buffer [32768] = [0, 128]"
    by (simp add: Uint8Array_of_buffer_def int16_bytes_def)
  then have "decode (blob_data (createBlob [Finite 1])) = Inr [0, 128]"
    by (simp add: decode_createBlob trunc_def)
  moreover have "decodeAudioData [0, 128] 24000 1
       = Inr \<lparr> numberOfChannels = 1, buffer_length = 1, sampleRate = 24000,
                channels = [[Finite (- 1)]] \<rparr>"
    by (simp add: decodeAudioData_eq sample_of_def)
  ultimately show ?thesis by simp
qed

text \<open>
  Claim C9. The value of \<^verbatim>\<open>createBlob\<close> is a closed expression in the samples of the block
  and in nothing else: the text is the base64 form of the two bytes of each sample's
  16-bit conversion, in the order of the samples, and the MIME type is a constant. No
  array content from before the call, no counter and no clock enters it, so two runs on
  the same block write the same bytes.
\<close>

theorem createBlob_deterministic:
  "createBlob samples =
     \<lparr> blob_data = btoa (map fromCharCode
                     (concat (map (\<lambda>v. int16_bytes (ToInt16 (times32768 v))) samples))),
       blob_mimeType = ''audio/pcm;rate=16000'' \<rparr>"
  by (rule createBlob_eq)

text \<open>
  Claim C10. The 16-bit conversion in \<^verbatim>\<open>createBlob\<close> does not clamp: the stored element
  is the truncated product reduced modulo \<open>2^16\<close> into the signed range, for every finite
  sample. The sample \<open>1.0\<close> is stored as \<open>-32768\<close>, and its block is sent as the text
  \<open>AIA=\<close>.
\<close>

theorem createBlob_wraps:
  "map sint (createBlob_int16 (map Finite rs))
     = map (\<lambda>r. (trunc (r * 32768) + 32768) mod 65536 - 32768) rs
   \<and> map sint (createBlob_int16 [Finite 1]) = [- 32768]
   \<and> blob_data (createBlob [Finite 1]) = ''AIA=''"
proof -
  have "map sint (createBlob_int16 (map Finite rs))
     = map (\<lambda>r. (trunc (r * 32768) + 32768) mod 65536 - 32768) rs"
    by (simp add: createBlob_int16_eq o_def sint_ToInt16)
  moreover have "map sint (createBlob_int16 [Finite 1]) = [- 32768]"
    by (simp add: createBlob_int16_eq trunc_def)
  moreover have "blob_data (createBlob [Finite 1]) = ''AIA=''"
    by (simp add: createBlob_eq trunc_def int16_bytes_def fromCharCode_def sextet_char_def
        base64_alphabet_def)
  ultimately show ?thesis by simp
qed

section \<open>Properties of the session\<close>

subsection \<open>Stopping sources and \<^verbatim>\<open>cleanUp\<close>\<close>

lemma stop_sources_eq:
  "\<forall>source \<in> set sources. node_start source \<noteq> None \<Longrightarrow>
   stop_sources sources s
     = (Normal, s\<lparr>effects := effects s @ map (\<lambda>source. SourceStop (node_id source)) sources\<rparr>)"
proof (induction sources arbitrary: s)
  case Nil
  then show ?case by simp
next
  case (Cons source sources)
  then obtain t where "node_start source = Some t" by auto
  with Cons show ?case by (simp add: emit_def)
qed

lemma stop_sources_keeps:
  "stop_sources sources s = (out, s') \<Longrightarrow> \<exists>es. s' = s\<lparr>effects := effects s @ es\<rparr>"
proof (induction sources arbitrary: s)
  case Nil
  then have "s' = s\<lparr>effects := effects s @ []\<rparr>" by simp
  then show ?case ..
next
  case (Cons source sources)
  show ?case
  proof (cases "node_start source")
    case None
    with Cons.prems have "s' = s\<lparr>effects := effects s @ []\<rparr>" by simp
    then show ?thesis ..
  next
    case (Some t)
    with Cons.prems have "stop_sources sources (emit (SourceStop (node_id source)) s) = (out, s')"
      by simp
    from Cons.IH [OF this] obtain es
      where "s' = (emit (SourceStop (node_id source)) s)
                    \<lparr>effects := effects (emit (SourceStop (node_id source)) s) @ es\<rparr>" ..
    then have "s' = s\<lparr>effects := effects s @ (SourceStop (node_id source) # es)\<rparr>"
      by (simp add: emit_def)
    then show ?thesis ..
  qed
qed

lemmas cleanUp_parts =
  close_session_def stop_tracks_def clear_frame_interval_def disconnect_processor_def
  close_input_context_def close_output_context_def emit_def

lemma cleanUp_eq:
  assumes "sources_started s" and "frameIntervalRef s \<noteq> Some 0"
  shows "cleanUp s =
    (Normal, s\<lparr>sessionPromiseRef := None, localStreamRef := None, frameIntervalRef := None,
                scriptProcessorRef := None, inputAudioContextRef := None,
                outputAudioContextRef := None, audioSourcesRef := [], nextStartTimeRef := 0,
                isCallActive := False, isConnecting := False,
                effects := effects s @ releases s\<rparr>)"
proof -
  define s1 where "s1 = close_output_context (close_input_context (disconnect_processor
                 (clear_frame_interval (stop_tracks (close_session s)))))"
  have src: "audioSourcesRef s1 = audioSourcesRef s"
    by (simp add: s1_def cleanUp_parts split: option.split)
  have eff: "effects s1 = effects s
     @ (case sessionPromiseRef s of None \<Rightarrow> [] | Some session \<Rightarrow> [SessionClose session])
     @ (case localStreamRef s of None \<Rightarrow> [] | Some stream \<Rightarrow> [TrackStop stream])
     @ (case frameIntervalRef s of None \<Rightarrow> [] | Some timer \<Rightarrow> [ClearInterval timer])
     @ (case scriptProcessorRef s of None \<Rightarrow> [] | Some processor \<Rightarrow> [ProcessorDisconnect processor])
     @ (case inputAudioContextRef s of None \<Rightarrow> [] | Some ctx \<Rightarrow> [ContextClose ctx])
     @ (case outputAudioContextRef s of None \<Rightarrow> [] | Some ctx \<Rightarrow> [ContextClose ctx])"
    using assms(2) by (simp add: s1_def cleanUp_parts split: option.split)
  have rest: "s1 = s\<lparr>sessionPromiseRef := None, localStreamRef := None, frameIntervalRef := None,
                scriptProcessorRef := None, inputAudioContextRef := None,
                outputAudioContextRef := None, effects := effects s1\<rparr>"
    using assms(2) by (simp add: s1_def cleanUp_parts split: option.split)
  have "\<forall>source \<in> set (audioSourcesRef s1). node_start source \<noteq> None"
    using assms(1) src by (simp add: sources_started_def)
  then have "stop_sources (audioSourcesRef s1) s1
      = (Normal, s1\<lparr>effects := effects s1
            @ map (\<lambda>source. SourceStop (node_id source)) (audioSourcesRef s1)\<rparr>)"
    by (rule stop_sources_eq)
  then have "cleanUp s = (Normal, s1\<lparr>effects := effects s1
            @ map (\<lambda>source. SourceStop (node_id source)) (audioSourcesRef s1),
          audioSourcesRef := [], nextStartTimeRef := 0,
          isCallActive := False, isConnecting := False\<rparr>)"
    by (simp add: cleanUp_def s1_def [symmetric] Let_def)
  also have "s1\<lparr>effects := effects s1
            @ map (\<lambda>source. SourceStop (node_id source)) (audioSourcesRef s1),
          audioSourcesRef := [], nextStartTimeRef := 0,
          isCallActive := False, isConnecting := False\<rparr>
      = s\<lparr>sessionPromiseRef := None, localStreamRef := None, frameIntervalRef := None,
                scriptProcessorRef := None, inputAudioContextRef := None,
                outputAudioContextRef := None, audioSourcesRef := [], nextStartTimeRef := 0,
                isCallActive := False, isConnecting := False,
                effects := effects s @ releases s\<rparr>"
    by (subst rest) (simp add: eff src releases_def)
  finally show ?thesis .
qed

subsection \<open>The parts of \<^verbatim>\<open>onmessage\<close>\<close>

lemma handle_transcriptions_keeps:
  "frameIntervalRef (handle_transcriptions message s) = frameIntervalRef s"
  "inputAudioContextRef (handle_transcriptions message s) = inputAudioContextRef s"
  "outputAudioContextRef (handle_transcriptions message s) = outputAudioContextRef s"
  "audioSourcesRef (handle_transcriptions message s) = audioSourcesRef s"
  "nextStartTimeRef (handle_transcriptions message s) = nextStartTimeRef s"
  "next_id (handle_transcriptions message s) = next_id s"
  "effects (handle_transcriptions message s) = effects s"
  "sessionPromiseRef (handle_transcriptions message s) = sessionPromiseRef s"
  "localStreamRef (handle_transcriptions message s) = localStreamRef s"
  "scriptProcessorRef (handle_transcriptions message s) = scriptProcessorRef s"
  by (simp_all add: handle_transcriptions_def Let_def split: option.split)

text \<open>The two ways in which scheduling a chunk ends.\<close>

lemma schedule_chunk_Normal:
  assumes "decode base64Audio = Inr bytes"
    and "decodeAudioData bytes 24000 1 = Inr audioBuffer"
    and "0 \<le> max (nextStartTimeRef s) now"
  shows "schedule_chunk now base64Audio s =
    (Normal, s\<lparr>nextStartTimeRef := max (nextStartTimeRef s) now + duration audioBuffer,
                next_id := Suc (next_id s),
                effects := effects s @ [SourceStart (next_id s) (max (nextStartTimeRef s) now)
                                          (duration audioBuffer)],
                audioSourcesRef := audioSourcesRef s @
                  [\<lparr> node_id = next_id s, node_duration = duration audioBuffer,
                     node_start = Some (max (nextStartTimeRef s) now) \<rparr>]\<rparr>)"
proof -
  have "\<not> max (nextStartTimeRef s) now < 0" using assms(3) by (simp only: not_less)
  with assms(1,2) show ?thesis
    by (simp add: schedule_chunk_def Let_def emit_def del: max_less_iff_conj)
qed

lemma schedule_chunk_cases:
  assumes "schedule_chunk now base64Audio s = (out, s')"
  obtains
    (raised) e where "out = Raised e"
      "s' = s\<lparr>nextStartTimeRef := max (nextStartTimeRef s) now, next_id := next_id s'\<rparr>"
      "next_id s \<le> next_id s'"
  | (scheduled) bytes audioBuffer where "out = Normal"
      "decode base64Audio = Inr bytes" "decodeAudioData bytes 24000 1 = Inr audioBuffer"
      "0 \<le> max (nextStartTimeRef s) now"
      "s' = s\<lparr>nextStartTimeRef := max (nextStartTimeRef s) now + duration audioBuffer,
                next_id := Suc (next_id s),
                effects := effects s @ [SourceStart (next_id s) (max (nextStartTimeRef s) now)
                                          (duration audioBuffer)],
                audioSourcesRef := audioSourcesRef s @
                  [\<lparr> node_id = next_id s, node_duration = duration audioBuffer,
                     node_start = Some (max (nextStartTimeRef s) now) \<rparr>]\<rparr>"
proof (cases "decode base64Audio")
  case (Inl e)
  with assms have "out = Raised e" "s' = s\<lparr>nextStartTimeRef := max (nextStartTimeRef s) now\<rparr>"
    by (simp_all add: schedule_chunk_def Let_def)
  then show ?thesis by (intro raised [of e]) simp_all
next
  case bytes: (Inr bytes)
  show ?thesis
  proof (cases "decodeAudioData bytes 24000 1")
    case (Inl e)
    with bytes assms
    have "out = Raised e" "s' = s\<lparr>nextStartTimeRef := max (nextStartTimeRef s) now\<rparr>"
      by (simp_all add: schedule_chunk_def Let_def)
    then show ?thesis by (intro raised [of e]) simp_all
  next
    case (Inr audioBuffer)
    show ?thesis
    proof (cases "0 \<le> max (nextStartTimeRef s) now")
      case True
      from schedule_chunk_Normal [OF bytes Inr True] assms
      show ?thesis by (intro scheduled [OF _ bytes Inr True]) simp_all
    next
      case False
      then have "nextStartTimeRef s < 0" "now < 0" by simp_all
      with bytes Inr assms
      have "out = Raised RangeError"
        "s' = s\<lparr>nextStartTimeRef := max (nextStartTimeRef s) now, next_id := Suc (next_id s)\<rparr>"
        by (simp_all add: schedule_chunk_def Let_def)
      then show ?thesis by (intro raised [of RangeError]) simp_all
    qed
  qed
qed

lemma handle_audio_cases:
  assumes "handle_audio now message s = (out, s')"
  obtains
    (skipped) "s' = s"
  | (chunk) base64Audio where "base64Audio_of message = Inr (Some base64Audio)"
      "base64Audio \<noteq> []" "outputAudioContextRef s \<noteq> None"
      "schedule_chunk now base64Audio s = (out, s')"
  using assms
  by (auto simp: handle_audio_def split: sum.splits option.splits if_splits)

lemma handle_interrupted_cases:
  assumes "handle_interrupted message s = (out, s')"
  obtains
    (absent) "out = Normal" "s' = s"
  | (raised) e es where "out = Raised e" "s' = s\<lparr>effects := effects s @ es\<rparr>"
  | (stopped) es where "out = Normal"
      "s' = s\<lparr>effects := effects s @ es, audioSourcesRef := [], nextStartTimeRef := 0\<rparr>"
proof (cases "\<exists>content. message = Some content \<and> interrupted content")
  case False
  with assms have "out = Normal" "s' = s"
    by (auto simp: handle_interrupted_def split: option.splits)
  then show ?thesis by (rule absent)
next
  case True
  obtain o1 s1 where st: "stop_sources (audioSourcesRef s) s = (o1, s1)"
    by (cases "stop_sources (audioSourcesRef s) s")
  then obtain es where keep: "s1 = s\<lparr>effects := effects s @ es\<rparr>"
    using stop_sources_keeps by blast
  show ?thesis
  proof (cases o1)
    case Normal
    with True st assms have "out = Normal"
      "s' = s1\<lparr>audioSourcesRef := [], nextStartTimeRef := 0\<rparr>"
      by (auto simp: handle_interrupted_def)
    then show ?thesis unfolding keep by (rule stopped)
  next
    case (Raised e)
    with True st assms have "out = Raised e" "s' = s1"
      by (auto simp: handle_interrupted_def)
    then show ?thesis unfolding keep by (rule raised)
  qed
qed

subsection \<open>The invariant of the reachable states\<close>

lemma invariant_transcriptions:
  "session_invariant s \<Longrightarrow> session_invariant (handle_transcriptions message s)"
  by (simp add: session_invariant_def sources_started_def handle_transcriptions_keeps)

lemma duration_nonneg: "0 \<le> duration audioBuffer"
  by (simp add: duration_def)

lemma invariant_schedule_chunk:
  assumes "session_invariant s" and "schedule_chunk now base64Audio s = (out, s')"
  shows "session_invariant s'"
  using assms(2)
proof (cases rule: schedule_chunk_cases)
  case (raised e)
  from raised(3) assms(1) show ?thesis
    by (subst raised(2)) (auto simp: session_invariant_def sources_started_def le_max_iff_disj)
next
  case (scheduled bytes audioBuffer)
  from assms(1) show ?thesis
    by (subst scheduled(5))
       (auto simp: session_invariant_def sources_started_def less_Suc_eq duration_nonneg
          add_nonneg_nonneg le_max_iff_disj)
qed

lemma invariant_handle_audio:
  assumes "session_invariant s" and "handle_audio now message s = (out, s')"
  shows "session_invariant s'"
  using assms(2)
proof (cases rule: handle_audio_cases)
  case skipped
  with assms(1) show ?thesis by simp
next
  case (chunk base64Audio)
  with assms(1) show ?thesis by (blast intro: invariant_schedule_chunk)
qed

lemma invariant_handle_interrupted:
  assumes "session_invariant s" and "handle_interrupted message s = (out, s')"
  shows "session_invariant s'"
  using assms(2)
proof (cases rule: handle_interrupted_cases)
  case absent
  with assms(1) show ?thesis by simp
next
  case (raised e es)
  from assms(1) show ?thesis
    by (subst raised(2)) (simp add: session_invariant_def sources_started_def)
next
  case (stopped es)
  from assms(1) show ?thesis
    by (subst stopped(2)) (simp add: session_invariant_def sources_started_def)
qed

lemma invariant_onmessage:
  assumes "session_invariant s"
  shows "session_invariant (snd (onmessage now message s))"
proof -
  obtain o1 s1 where a: "handle_audio now message (handle_transcriptions message s) = (o1, s1)"
    by (cases "handle_audio now message (handle_transcriptions message s)")
  with assms have s1: "session_invariant s1"
    by (blast intro: invariant_handle_audio invariant_transcriptions)
  show ?thesis
  proof (cases o1)
    case Normal
    obtain o2 s2 where i: "handle_interrupted message s1 = (o2, s2)"
      by (cases "handle_interrupted message s1")
    with s1 have "session_invariant s2" by (blast intro: invariant_handle_interrupted)
    with a i Normal show ?thesis by (simp add: onmessage_def)
  next
    case (Raised e)
    with a s1 show ?thesis by (simp add: onmessage_def)
  qed
qed

lemma invariant_cleanUp:
  assumes "session_invariant s"
  shows "session_invariant (snd (cleanUp s))"
proof -
  from assms have "sources_started s" "frameIntervalRef s \<noteq> Some 0"
    by (simp_all add: session_invariant_def)
  then show ?thesis
    by (simp add: cleanUp_eq session_invariant_def sources_started_def)
qed

lemma invariant_emit:
  "session_invariant s \<Longrightarrow> session_invariant (emit e s)"
  by (simp add: session_invariant_def sources_started_def emit_def)

lemma invariant_handleStartCall:
  assumes "session_invariant s"
  shows "session_invariant (snd (handleStartCall granted s))"
proof (cases granted)
  case True
  with assms show ?thesis
    by (auto simp: handleStartCall_def Let_def session_invariant_def sources_started_def)
next
  case False
  from assms have "session_invariant (emit Alert
      (s\<lparr>isConnecting := True, transcripts := [],
         currentInputTranscription := [], currentOutputTranscription := []\<rparr>))"
    by (simp add: session_invariant_def sources_started_def emit_def)
  with False show ?thesis
    by (simp add: handleStartCall_def Let_def invariant_cleanUp)
qed

lemma invariant_onopen:
  assumes "session_invariant s"
  shows "session_invariant (onopen video s)"
proof -
  from assms have "outputAudioContextRef s \<noteq> Some (next_id s)"
    by (auto simp: session_invariant_def)
  then have "Some (next_id s) \<noteq> outputAudioContextRef s" by (rule not_sym)
  with assms show ?thesis
    by (auto simp: onopen_def Let_def session_invariant_def sources_started_def)
qed

lemma invariant_source_ended:
  assumes "session_invariant s"
  shows "session_invariant (source_ended node s)"
  using assms
  by (auto simp: source_ended_def session_invariant_def sources_started_def distinct_map_filter)

lemma invariant_step:
  "session_invariant s \<Longrightarrow> session_invariant (snd (step e s))"
  by (cases e)
     (simp_all add: invariant_handleStartCall invariant_onopen invariant_onmessage
        invariant_cleanUp invariant_emit invariant_source_ended onerror_def onclose_def
        handleEndCall_def)

lemma invariant_initial: "session_invariant initial_state"
  by (simp add: session_invariant_def sources_started_def initial_state_def)

lemma reachable_invariant: "reachable s \<Longrightarrow> session_invariant s"
  by (induction rule: reachable.induct) (simp_all add: invariant_initial invariant_step)

lemma reachable_run: "reachable s \<Longrightarrow> reachable (run es s)"
  by (induction es arbitrary: s) (simp_all add: reachable_step)

subsection \<open>The states of the examples\<close>

lemma decode_AAAAAA: "decode ''AAAAAA=='' = Inr [0, 0, 0, 0]"
  by (simp add: decode_def atob_def strip_padding_def ascii_whitespace_def char_sextet_def
      base64_alphabet_def decode_loop_eq charCodeAt_def Let_def)

lemma decodeAudioData_zeros:
  "decodeAudioData [0, 0, 0, 0] 24000 1
     = Inr \<lparr> numberOfChannels = 1, buffer_length = 2, sampleRate = 24000,
              channels = [[Finite 0, Finite 0]] \<rparr>"
  by (simp add: decodeAudioData_eq sample_of_def upt_rec)

lemma open_call_eq:
  "open_call =
     \<lparr> isConnecting = False, isCallActive = True, transcripts = [],
       currentInputTranscription = [], currentOutputTranscription = [],
       localStreamRef = Some 1, sessionPromiseRef = Some 3, inputAudioContextRef = Some 4,
       outputAudioContextRef = Some 2, scriptProcessorRef = Some 5, frameIntervalRef = Some 7,
       audioSourcesRef = [], nextStartTimeRef = 0,
       closure_input = [], closure_output = [],
       next_id = 8, effects = [] \<rparr>"
  by (simp add: open_call_def initial_state_def handleStartCall_def onopen_def Let_def)

lemma reachable_open_call: "reachable open_call"
  unfolding open_call_def by (rule reachable_run) (rule reachable_initial)

lemma onmessage_chunk_open_call:
  "onmessage 0 (audio_chunk ''AAAAAA=='') open_call =
     (Normal, open_call\<lparr>nextStartTimeRef := 1 / 12000, next_id := 9,
        effects := [SourceStart 8 0 (1 / 12000)],
        audioSourcesRef := [\<lparr> node_id = 8, node_duration = 1 / 12000, node_start = Some 0 \<rparr>]\<rparr>)"
proof -
  have t: "handle_transcriptions (audio_chunk ''AAAAAA=='') open_call = open_call"
    by (simp add: handle_transcriptions_def audio_chunk_def no_content_def Let_def)
  have "schedule_chunk 0 ''AAAAAA=='' open_call =
     (Normal, open_call\<lparr>nextStartTimeRef := 1 / 12000, next_id := 9,
        effects := [SourceStart 8 0 (1 / 12000)],
        audioSourcesRef := [\<lparr> node_id = 8, node_duration = 1 / 12000, node_start = Some 0 \<rparr>]\<rparr>)"
    by (subst schedule_chunk_Normal [OF decode_AAAAAA decodeAudioData_zeros])
       (simp_all add: open_call_eq duration_def)
  then have "handle_audio 0 (audio_chunk ''AAAAAA=='') open_call =
     (Normal, open_call\<lparr>nextStartTimeRef := 1 / 12000, next_id := 9,
        effects := [SourceStart 8 0 (1 / 12000)],
        audioSourcesRef := [\<lparr> node_id = 8, node_duration = 1 / 12000, node_start = Some 0 \<rparr>]\<rparr>)"
    by (simp add: handle_audio_def base64Audio_of_def audio_chunk_def no_content_def open_call_eq)
  moreover have "handle_interrupted (audio_chunk ''AAAAAA=='') s' = (Normal, s')" for s'
    by (simp add: handle_interrupted_def audio_chunk_def no_content_def)
  ultimately show ?thesis
    by (simp add: onmessage_def t)
qed

lemma distinct_releases:
  assumes "session_invariant s"
  shows "distinct (releases s)"
proof -
  have "distinct (map (\<lambda>source. SourceStop (node_id source)) (audioSourcesRef s))"
    using assms by (auto simp: session_invariant_def distinct_map inj_on_def)
  moreover have "inputAudioContextRef s \<noteq> None
      \<longrightarrow> inputAudioContextRef s \<noteq> outputAudioContextRef s"
    using assms by (simp add: session_invariant_def)
  ultimately show ?thesis
    by (auto simp: releases_def split: option.splits)
qed

lemma decode_Nil: "decode [] = Inr []"
  by (simp add: decode_def atob_def strip_padding_def decode_loop_eq)

lemma handle_transcriptions_audio_chunk:
  "handle_transcriptions (audio_chunk base64Audio) s = s"
  by (simp add: handle_transcriptions_def audio_chunk_def no_content_def Let_def)

lemma handle_interrupted_audio_chunk:
  "handle_interrupted (audio_chunk base64Audio) s = (Normal, s)"
  by (simp add: handle_interrupted_def audio_chunk_def no_content_def)

lemma base64Audio_of_audio_chunk:
  "base64Audio_of (audio_chunk base64Audio) = Inr (Some base64Audio)"
  by (simp add: base64Audio_of_def audio_chunk_def no_content_def)

text \<open>A message that carries a chunk which decodes, and nothing else.\<close>

lemma onmessage_audio_chunk:
  assumes "decode base64Audio = Inr bytes"
    and "decodeAudioData bytes 24000 1 = Inr audioBuffer"
    and "outputAudioContextRef s \<noteq> None"
    and "0 \<le> max (nextStartTimeRef s) now"
  shows "onmessage now (audio_chunk base64Audio) s =
    (Normal, s\<lparr>nextStartTimeRef := max (nextStartTimeRef s) now + duration audioBuffer,
                next_id := Suc (next_id s),
                effects := effects s @ [SourceStart (next_id s) (max (nextStartTimeRef s) now)
                                          (duration audioBuffer)],
                audioSourcesRef := audioSourcesRef s @
                  [\<lparr> node_id = next_id s, node_duration = duration audioBuffer,
                     node_start = Some (max (nextStartTimeRef s) now) \<rparr>]\<rparr>)"
proof -
  have "base64Audio \<noteq> []"
  proof
    assume "base64Audio = []"
    with assms(1) have "bytes = []" by (simp add: decode_Nil)
    with assms(2) show False by (simp add: decodeAudioData_eq)
  qed
  with assms(3) have "handle_audio now (audio_chunk base64Audio) s
      = schedule_chunk now base64Audio s"
    by (simp add: handle_audio_def base64Audio_of_audio_chunk)
  then show ?thesis
    by (simp add: onmessage_def handle_transcriptions_audio_chunk handle_interrupted_audio_chunk
        schedule_chunk_Normal [OF assms(1,2,4)])
qed

lemma onmessage_zeros:
  assumes "outputAudioContextRef s \<noteq> None" and "0 \<le> max (nextStartTimeRef s) now"
  shows "onmessage now (audio_chunk ''AAAAAA=='') s =
    (Normal, s\<lparr>nextStartTimeRef := max (nextStartTimeRef s) now + 1 / 12000,
                next_id := Suc (next_id s),
                effects := effects s @ [SourceStart (next_id s) (max (nextStartTimeRef s) now)
                                          (1 / 12000)],
                audioSourcesRef := audioSourcesRef s @
                  [\<lparr> node_id = next_id s, node_duration = 1 / 12000,
                     node_start = Some (max (nextStartTimeRef s) now) \<rparr>]\<rparr>)"
  using onmessage_audio_chunk [OF decode_AAAAAA decodeAudioData_zeros assms]
  by (simp add: duration_def)

text \<open>The state of the examples: the open call after one chunk of two frames at clock 5.\<close>

lemma playing_eq:
  "snd (onmessage 5 (audio_chunk ''AAAAAA=='') open_call) =
     open_call\<lparr>nextStartTimeRef := 5 + 1 / 12000, next_id := 9,
        effects := [SourceStart 8 5 (1 / 12000)],
        audioSourcesRef := [\<lparr> node_id = 8, node_duration = 1 / 12000, node_start = Some 5 \<rparr>]\<rparr>"
  by (subst onmessage_zeros) (simp_all add: open_call_eq)

lemma reachable_playing:
  "reachable (snd (onmessage 5 (audio_chunk ''AAAAAA=='') open_call))"
  using reachable_step [OF reachable_open_call, of "MessageReceived 5 (audio_chunk ''AAAAAA=='')"]
  by simp

lemma onmessage_interruption_playing:
  "onmessage 6 interruption (snd (onmessage 5 (audio_chunk ''AAAAAA=='') open_call)) =
     (Normal, open_call\<lparr>nextStartTimeRef := 0, next_id := 9,
        effects := [SourceStart 8 5 (1 / 12000), SourceStop 8],
        audioSourcesRef := []\<rparr>)"
  unfolding playing_eq
  by (simp add: onmessage_def handle_transcriptions_def handle_audio_def base64Audio_of_def
      handle_interrupted_def interruption_def no_content_def Let_def emit_def open_call_eq)

lemma decode_AAAA: "decode ''AAAA'' = Inr [0, 0, 0]"
  by (simp add: decode_def atob_def strip_padding_def ascii_whitespace_def char_sextet_def
      base64_alphabet_def decode_loop_eq charCodeAt_def Let_def)

subsection \<open>Scheduling\<close>

lemma onmessage_uninterrupted:
  assumes "keeps_cursor (MessageReceived now message)"
  shows "onmessage now message s = handle_audio now message (handle_transcriptions message s)"
proof -
  have "handle_interrupted message s1 = (Normal, s1)" for s1
    using assms by (cases message) (simp_all add: handle_interrupted_def)
  then show ?thesis
    by (cases "handle_audio now message (handle_transcriptions message s)")
       (simp add: onmessage_def split: outcome.split)
qed

text \<open>What a step that keeps the cursor does to the log and to the cursor.\<close>

lemma handle_audio_schedule:
  assumes "handle_audio now message s = (out, s')"
  shows "(effects s' = effects s \<and> nextStartTimeRef s \<le> nextStartTimeRef s')
       \<or> (\<exists>d. 0 \<le> d
             \<and> effects s' = effects s @ [SourceStart (next_id s) (max (nextStartTimeRef s) now) d]
             \<and> nextStartTimeRef s' = max (nextStartTimeRef s) now + d)"
  using assms
proof (cases rule: handle_audio_cases)
  case skipped
  then show ?thesis by simp
next
  case (chunk base64Audio)
  from chunk(4) show ?thesis
  proof (cases rule: schedule_chunk_cases)
    case (raised e)
    have "effects s' = effects s" "nextStartTimeRef s \<le> nextStartTimeRef s'"
      by (subst raised(2), simp)+
    then show ?thesis by simp
  next
    case (scheduled bytes audioBuffer)
    have "effects s' = effects s @ [SourceStart (next_id s) (max (nextStartTimeRef s) now)
                                      (duration audioBuffer)]"
      "nextStartTimeRef s' = max (nextStartTimeRef s) now + duration audioBuffer"
      by (subst scheduled(5), simp)+
    with duration_nonneg [of audioBuffer] show ?thesis by blast
  qed
qed

lemma keeps_cursor_step:
  assumes "keeps_cursor e"
  shows "(effects (snd (step e s)) = effects s
            \<and> nextStartTimeRef s \<le> nextStartTimeRef (snd (step e s)))
       \<or> (\<exists>node startAt d. 0 \<le> d
             \<and> effects (snd (step e s)) = effects s @ [SourceStart node startAt d]
             \<and> nextStartTimeRef s \<le> startAt
             \<and> nextStartTimeRef (snd (step e s)) = startAt + d)"
proof (cases e)
  case (MessageReceived now message)
  obtain out s' where h: "handle_audio now message (handle_transcriptions message s) = (out, s')"
    by (cases "handle_audio now message (handle_transcriptions message s)")
  from handle_audio_schedule [OF h] assms MessageReceived h show ?thesis
    by (auto simp: onmessage_uninterrupted handle_transcriptions_keeps)
next
  case (SourceEnded node)
  then show ?thesis by (simp add: source_ended_def)
qed (use assms in simp_all)

lemma no_overlap_run:
  assumes "\<forall>e \<in> set es. keeps_cursor e" and "t \<le> nextStartTimeRef s"
  shows "\<exists>new. effects (run es s) = effects s @ new \<and> no_overlap t new"
  using assms
proof (induction es arbitrary: s t)
  case Nil
  then show ?case by simp
next
  case (Cons e es)
  let ?s1 = "snd (step e s)"
  from Cons.prems have e: "keeps_cursor e" and es: "\<forall>e \<in> set es. keeps_cursor e" by simp_all
  from keeps_cursor_step [OF e, of s] show ?case
  proof (elim disjE exE conjE)
    assume a: "effects ?s1 = effects s" "nextStartTimeRef s \<le> nextStartTimeRef ?s1"
    with Cons.prems have "t \<le> nextStartTimeRef ?s1" by simp
    from Cons.IH [OF es this] a(1) show ?thesis by simp
  next
    fix node startAt d
    assume a: "effects ?s1 = effects s @ [SourceStart node startAt d]"
      "nextStartTimeRef s \<le> startAt" "nextStartTimeRef ?s1 = startAt + d"
    then have "startAt + d \<le> nextStartTimeRef ?s1" by simp
    from Cons.IH [OF es this] obtain new
      where new: "effects (run es ?s1) = effects ?s1 @ new" "no_overlap (startAt + d) new"
      by blast
    from a(2) Cons.prems(2) have "t \<le> startAt" by simp
    with new a(1) have "effects (run (e # es) s) = effects s @ (SourceStart node startAt d # new)"
      "no_overlap t (SourceStart node startAt d # new)"
      by simp_all
    then show ?thesis by blast
  qed
qed

lemma stop_sources_effects:
  "stop_sources sources s = (out, s') \<Longrightarrow>
   \<exists>es. effects s' = effects s @ es \<and> (\<forall>e \<in> set es. \<exists>node. e = SourceStop node)"
proof (induction sources arbitrary: s)
  case Nil
  then show ?case by simp
next
  case (Cons source sources)
  show ?case
  proof (cases "node_start source")
    case None
    with Cons.prems show ?thesis by simp
  next
    case (Some t)
    with Cons.prems have "stop_sources sources (emit (SourceStop (node_id source)) s) = (out, s')"
      by simp
    from Cons.IH [OF this] obtain es
      where "effects s' = effects s @ (SourceStop (node_id source) # es)"
        "\<forall>e \<in> set es. \<exists>node. e = SourceStop node"
      by (auto simp: emit_def)
    then show ?thesis by (intro exI [of _ "SourceStop (node_id source) # es"]) simp
  qed
qed

lemma handle_interrupted_effects:
  assumes "handle_interrupted message s = (out, s')"
  shows "\<exists>es. effects s' = effects s @ es \<and> (\<forall>e \<in> set es. \<exists>node. e = SourceStop node)"
proof (cases "\<exists>content. message = Some content \<and> interrupted content")
  case False
  with assms have "s' = s"
    by (auto simp: handle_interrupted_def split: option.splits)
  then show ?thesis by simp
next
  case True
  obtain o1 s1 where st: "stop_sources (audioSourcesRef s) s = (o1, s1)"
    by (cases "stop_sources (audioSourcesRef s) s")
  with True assms have "effects s' = effects s1"
    by (cases o1) (auto simp: handle_interrupted_def)
  with stop_sources_effects [OF st] show ?thesis by simp
qed

lemma onmessage_effects:
  "\<exists>a b. effects (snd (onmessage now message s)) = effects s @ a @ b
       \<and> (a = [] \<or> (\<exists>d. a = [SourceStart (next_id s) (max (nextStartTimeRef s) now) d]))
       \<and> (\<forall>e \<in> set b. \<exists>node. e = SourceStop node)"
proof -
  let ?s0 = "handle_transcriptions message s"
  obtain o1 s1 where h: "handle_audio now message ?s0 = (o1, s1)"
    by (cases "handle_audio now message ?s0")
  from handle_audio_schedule [OF h]
  obtain a where a: "effects s1 = effects s @ a"
    "a = [] \<or> (\<exists>d. a = [SourceStart (next_id s) (max (nextStartTimeRef s) now) d])"
    by (auto simp: handle_transcriptions_keeps)
  show ?thesis
  proof (cases o1)
    case (Raised e)
    with h a have "effects (snd (onmessage now message s)) = effects s @ a @ []"
      by (simp add: onmessage_def)
    with a(2) show ?thesis by (intro exI [of _ a] exI [of _ "[]"]) simp
  next
    case Normal
    obtain o2 s2 where i: "handle_interrupted message s1 = (o2, s2)"
      by (cases "handle_interrupted message s1")
    have "\<exists>b. effects s2 = effects s1 @ b \<and> (\<forall>e \<in> set b. \<exists>node. e = SourceStop node)"
      using i by (rule handle_interrupted_effects)
    then obtain b where b: "effects s2 = effects s1 @ b" "\<forall>e \<in> set b. \<exists>node. e = SourceStop node"
      by blast
    from h i Normal a b have "effects (snd (onmessage now message s)) = effects s @ a @ b"
      by (simp add: onmessage_def)
    with a(2) b(2) show ?thesis by (intro exI [of _ a] exI [of _ b]) simp
  qed
qed

text \<open>What a turn-complete message does for every state.\<close>

lemma turn_complete_appends:
  assumes "turnComplete content"
  shows "transcripts (handle_transcriptions (Some content) s)
           = transcripts s
             @ [\<lparr>speaker = User,
                  transcript_text = closure_input s @ text_or_empty (inputTranscription content)\<rparr>,
                 \<lparr>speaker = Model,
                  transcript_text = closure_output s @ text_or_empty (outputTranscription content)\<rparr>]"
    and "currentInputTranscription (handle_transcriptions (Some content) s) = []"
    and "currentOutputTranscription (handle_transcriptions (Some content) s) = []"
  using assms by (simp_all add: handle_transcriptions_def Let_def split: option.split)

text \<open>The code against the schedule of the spec.\<close>

lemma decode_chunk_Inr:
  assumes "decode_chunk base64Audio = Inr audioBuffer"
  obtains bytes where "decode base64Audio = Inr bytes"
    "decodeAudioData bytes 24000 1 = Inr audioBuffer"
  using assms by (auto simp: decode_chunk_def split: sum.splits)

lemma no_overlap_spec_schedule:
  "t \<le> cursor \<Longrightarrow> no_overlap t (spec_schedule cursor node chunks)"
proof (induction chunks arbitrary: t cursor node)
  case Nil
  then show ?case by simp
next
  case (Cons c chunks)
  obtain now d where c: "c = (now, d)" by (cases c)
  have "no_overlap (max cursor now + d) (spec_schedule (max cursor now + d) (Suc node) chunks)"
    by (rule Cons.IH) simp
  with Cons.prems show ?case by (simp add: c Let_def)
qed

lemma run_chunks:
  assumes "reachable s" and "outputAudioContextRef s \<noteq> None"
    and "\<forall>(now, base64Audio, audioBuffer) \<in> set chunks. decode_chunk base64Audio = Inr audioBuffer"
  shows "effects (run (chunk_events chunks) s)
           = effects s @ spec_schedule (nextStartTimeRef s) (next_id s) (chunk_durations chunks)
       \<and> nextStartTimeRef (run (chunk_events chunks) s)
           = spec_cursor (nextStartTimeRef s) (chunk_durations chunks)"
  using assms
proof (induction chunks arbitrary: s)
  case Nil
  then show ?case by (simp add: chunk_events_def chunk_durations_def)
next
  case (Cons c chunks)
  obtain now base64Audio audioBuffer where c: "c = (now, base64Audio, audioBuffer)"
    by (cases c)
  with Cons.prems(3) have "decode_chunk base64Audio = Inr audioBuffer" by simp
  then obtain bytes where d: "decode base64Audio = Inr bytes"
    "decodeAudioData bytes 24000 1 = Inr audioBuffer"
    by (rule decode_chunk_Inr)
  from Cons.prems(1) have "session_invariant s" by (rule reachable_invariant)
  then have "0 \<le> nextStartTimeRef s" by (simp add: session_invariant_def)
  then have "0 \<le> max (nextStartTimeRef s) now" by simp
  note m = onmessage_audio_chunk [OF d Cons.prems(2) this]
  let ?s1 = "snd (onmessage now (audio_chunk base64Audio) s)"
  have r: "reachable ?s1"
    using reachable_step [OF Cons.prems(1), of "MessageReceived now (audio_chunk base64Audio)"]
    by simp
  have o: "outputAudioContextRef ?s1 \<noteq> None" using Cons.prems(2) by (simp add: m)
  from Cons.prems(3) have
    "\<forall>(now, base64Audio, audioBuffer) \<in> set chunks. decode_chunk base64Audio = Inr audioBuffer"
    by simp
  from Cons.IH [OF r o this]
  have "effects (run (chunk_events chunks) ?s1)
           = effects ?s1 @ spec_schedule (nextStartTimeRef ?s1) (next_id ?s1) (chunk_durations chunks)"
    and "nextStartTimeRef (run (chunk_events chunks) ?s1)
           = spec_cursor (nextStartTimeRef ?s1) (chunk_durations chunks)"
    by simp_all
  moreover have "effects ?s1 = effects s
      @ [SourceStart (next_id s) (max (nextStartTimeRef s) now) (duration audioBuffer)]"
    "nextStartTimeRef ?s1 = max (nextStartTimeRef s) now + duration audioBuffer"
    "next_id ?s1 = Suc (next_id s)"
    by (simp_all add: m)
  ultimately show ?case
    by (simp add: c chunk_events_def chunk_durations_def Let_def)
qed

lemma decode_chunk_zeros:
  "decode_chunk ''AAAAAA=='' =
     Inr \<lparr> numberOfChannels = 1, buffer_length = 2, sampleRate = 24000,
            channels = [[Finite 0, Finite 0]] \<rparr>"
  by (simp only: decode_chunk_def decode_AAAAAA sum.case decodeAudioData_zeros)

text \<open>
  After the cursor has been set to 0, the next chunk starts at the clock of its arrival:
  the start time is \<open>max 0 now\<close>.
\<close>

lemma chunk_after_reset:
  assumes "nextStartTimeRef s = 0" and "0 \<le> now" and "outputAudioContextRef s \<noteq> None"
    and "decode base64Audio = Inr bytes"
    and "decodeAudioData bytes 24000 1 = Inr audioBuffer"
  shows "new_effects s (snd (onmessage now (audio_chunk base64Audio) s))
           = [SourceStart (next_id s) now (duration audioBuffer)]"
proof -
  from assms(1,2) have m: "max (nextStartTimeRef s) now = now" "0 \<le> max (nextStartTimeRef s) now"
    by simp_all
  from onmessage_audio_chunk [OF assms(4,5,3) m(2)] show ?thesis
    by (simp add: new_effects_def m(1))
qed

section \<open>The claims about the session\<close>

text \<open>
  Instants and durations are real numbers: the rounding of the additions on the cursor is
  not modelled. Each handler is one step, and a state is reachable when a sequence of
  handler runs leads to it from the state of the mounted component.
\<close>

text \<open>
  Claim C1, as amended. In a reachable state, when a message carries the interruption flag
  and its audio part, if there is one, has been scheduled without raising, the handler
  calls \<^verbatim>\<open>stop\<close> on every node of the set (the node scheduled from the same message
  included), leaves the set empty and sets \<open>nextStartTimeRef\<close> to the constant 0.
\<close>

theorem interruption_stops_all_and_resets_to_zero:
  assumes "reachable s" and "interrupted content"
    and "handle_audio now (Some content) (handle_transcriptions (Some content) s) = (Normal, s1)"
  shows "onmessage now (Some content) s =
    (Normal, s1\<lparr>effects := effects s1 @ map (\<lambda>source. SourceStop (node_id source))
                                         (audioSourcesRef s1),
                 audioSourcesRef := [], nextStartTimeRef := 0\<rparr>)"
proof -
  from assms(1) have "session_invariant s" by (rule reachable_invariant)
  then have "session_invariant (handle_transcriptions (Some content) s)"
    by (rule invariant_transcriptions)
  then have "session_invariant s1" using assms(3) by (rule invariant_handle_audio)
  then have "\<forall>source \<in> set (audioSourcesRef s1). node_start source \<noteq> None"
    by (simp add: session_invariant_def sources_started_def)
  then have "stop_sources (audioSourcesRef s1) s1
     = (Normal, s1\<lparr>effects := effects s1
          @ map (\<lambda>source. SourceStop (node_id source)) (audioSourcesRef s1)\<rparr>)"
    by (rule stop_sources_eq)
  with assms(2,3) show ?thesis
    by (simp add: onmessage_def handle_interrupted_def)
qed

text \<open>
  The theorem at the open call in which one chunk was scheduled at clock 5 and the
  interruption arrives at clock 6.
\<close>

theorem interruption_stops_all_and_resets_to_zero_witness:
  "onmessage 6 interruption (snd (onmessage 5 (audio_chunk ''AAAAAA=='') open_call)) =
     (Normal, open_call\<lparr>nextStartTimeRef := 0, next_id := 9,
        effects := [SourceStart 8 5 (1 / 12000), SourceStop 8],
        audioSourcesRef := []\<rparr>)"
proof -
  let ?playing = "snd (onmessage 5 (audio_chunk ''AAAAAA=='') open_call)"
  have i: "interrupted (no_content\<lparr>interrupted := True\<rparr>)" by simp
  have h: "handle_audio 6 (Some (no_content\<lparr>interrupted := True\<rparr>))
         (handle_transcriptions (Some (no_content\<lparr>interrupted := True\<rparr>)) ?playing)
       = (Normal, ?playing)"
    by (simp add: handle_audio_def handle_transcriptions_def base64Audio_of_def no_content_def
        Let_def)
  from interruption_stops_all_and_resets_to_zero [OF reachable_playing i h]
  show ?thesis
    unfolding interruption_def playing_eq by simp
qed

text \<open>
  Claim C1 as it is written fails there: the device clock is 6 and the cursor after the
  interruption is 0, which is not at or after the clock.
\<close>

theorem interruption_cursor_counterexample:
  "nextStartTimeRef (snd (onmessage 6 interruption
       (snd (onmessage 5 (audio_chunk ''AAAAAA=='') open_call)))) = 0
   \<and> \<not> 6 \<le> nextStartTimeRef (snd (onmessage 6 interruption
       (snd (onmessage 5 (audio_chunk ''AAAAAA=='') open_call))))"
  by (simp add: onmessage_interruption_playing)

text \<open>
  Claim C2. In a reachable state with the output context, for every sequence of chunks that
  decode, handled in the order of arrival with nothing in between, the code starts one
  source per chunk and logs exactly the schedule of the spec: chunk \<open>k\<close> starts at the
  maximum of the cursor and the device clock, and the cursor is then that start time plus
  the duration of the chunk; so every start is at or after the end, start plus duration,
  of the chunk before it. Two more general facts are part of the statement: over any
  sequence of messages without the interruption flag, with sources ending in between, the
  starts that are logged do not overlap; and whenever such a message starts a source, the
  start time is the maximum of the cursor and the clock and the cursor becomes start plus
  duration.
\<close>

theorem chunks_back_to_back:
  assumes "reachable s" and "outputAudioContextRef s \<noteq> None"
    and "\<forall>(now, base64Audio, audioBuffer) \<in> set chunks. decode_chunk base64Audio = Inr audioBuffer"
  shows "new_effects s (run (chunk_events chunks) s)
           = spec_schedule (nextStartTimeRef s) (next_id s) (chunk_durations chunks)
       \<and> nextStartTimeRef (run (chunk_events chunks) s)
           = spec_cursor (nextStartTimeRef s) (chunk_durations chunks)
       \<and> no_overlap (nextStartTimeRef s) (new_effects s (run (chunk_events chunks) s))
       \<and> ((\<forall>e \<in> set es. keeps_cursor e)
            \<longrightarrow> no_overlap (nextStartTimeRef s') (new_effects s' (run es s')))
       \<and> (keeps_cursor (MessageReceived now message)
            \<and> SourceStart node startAt d \<in> set (new_effects s' (snd (onmessage now message s')))
          \<longrightarrow> startAt = max (nextStartTimeRef s') now
              \<and> nextStartTimeRef (snd (onmessage now message s')) = startAt + d)"
proof (intro conjI impI)
  note r = run_chunks [OF assms]
  from r show e: "new_effects s (run (chunk_events chunks) s)
           = spec_schedule (nextStartTimeRef s) (next_id s) (chunk_durations chunks)"
    by (simp add: new_effects_def)
  from r show "nextStartTimeRef (run (chunk_events chunks) s)
           = spec_cursor (nextStartTimeRef s) (chunk_durations chunks)"
    by simp
  show "no_overlap (nextStartTimeRef s) (new_effects s (run (chunk_events chunks) s))"
    unfolding e by (rule no_overlap_spec_schedule) simp
next
  assume "\<forall>e \<in> set es. keeps_cursor e"
  then obtain new where "effects (run es s') = effects s' @ new"
    "no_overlap (nextStartTimeRef s') new"
    using no_overlap_run [of es "nextStartTimeRef s'" s'] by auto
  then show "no_overlap (nextStartTimeRef s') (new_effects s' (run es s'))"
    by (simp add: new_effects_def)
next
  assume a: "keeps_cursor (MessageReceived now message)
        \<and> SourceStart node startAt d \<in> set (new_effects s' (snd (onmessage now message s')))"
  let ?s0 = "handle_transcriptions message s'"
  obtain out s2 where h: "handle_audio now message ?s0 = (out, s2)"
    by (cases "handle_audio now message ?s0")
  with a have s2: "snd (onmessage now message s') = s2"
    by (simp add: onmessage_uninterrupted)
  from handle_audio_schedule [OF h] a
  have "startAt = max (nextStartTimeRef s') now \<and> nextStartTimeRef s2 = startAt + d"
    unfolding s2 by (auto simp: new_effects_def handle_transcriptions_keeps)
  then show "startAt = max (nextStartTimeRef s') now"
    and "nextStartTimeRef (snd (onmessage now message s')) = startAt + d"
    unfolding s2 by simp_all
qed

text \<open>
  The theorem at two chunks of two frames that arrive at clock 5 into the open call: the
  second starts when the first ends. The more general facts are taken at the same two
  messages with the end of the first source in between, and at the first message.
\<close>

theorem chunks_back_to_back_witness:
  "new_effects open_call
      (run [MessageReceived 5 (audio_chunk ''AAAAAA==''),
            MessageReceived 5 (audio_chunk ''AAAAAA=='')] open_call)
     = [SourceStart 8 5 (1 / 12000), SourceStart 9 (5 + 1 / 12000) (1 / 12000)]
   \<and> nextStartTimeRef
        (run [MessageReceived 5 (audio_chunk ''AAAAAA==''),
              MessageReceived 5 (audio_chunk ''AAAAAA=='')] open_call)
     = 5 + 1 / 12000 + 1 / 12000
   \<and> no_overlap (nextStartTimeRef open_call)
        (new_effects open_call
          (run [MessageReceived 5 (audio_chunk ''AAAAAA==''),
                MessageReceived 5 (audio_chunk ''AAAAAA=='')] open_call))
   \<and> no_overlap (nextStartTimeRef open_call)
        (new_effects open_call
          (run [MessageReceived 5 (audio_chunk ''AAAAAA==''), SourceEnded 8,
                MessageReceived 5 (audio_chunk ''AAAAAA=='')] open_call))
   \<and> nextStartTimeRef (snd (onmessage 5 (audio_chunk ''AAAAAA=='') open_call))
     = 5 + 1 / 12000"
proof -
  let ?buf = "\<lparr> numberOfChannels = 1, buffer_length = 2, sampleRate = 24000,
                 channels = [[Finite 0, Finite 0]] \<rparr>"
  let ?chunks = "[(5, ''AAAAAA=='', ?buf), (5, ''AAAAAA=='', ?buf)]"
  let ?es = "[MessageReceived 5 (audio_chunk ''AAAAAA==''), SourceEnded 8,
              MessageReceived 5 (audio_chunk ''AAAAAA=='')]"
  have c: "outputAudioContextRef open_call \<noteq> None" by (simp add: open_call_eq)
  have d: "\<forall>(now, base64Audio, audioBuffer) \<in> set ?chunks.
             decode_chunk base64Audio = Inr audioBuffer"
    by (simp add: decode_chunk_zeros)
  have k: "\<forall>e \<in> set ?es. keeps_cursor e"
    "keeps_cursor (MessageReceived 5 (audio_chunk ''AAAAAA==''))"
    by (simp_all add: audio_chunk_def no_content_def)
  have m: "SourceStart 8 5 (1 / 12000)
      \<in> set (new_effects open_call (snd (onmessage 5 (audio_chunk ''AAAAAA=='') open_call)))"
    unfolding playing_eq by (simp add: new_effects_def open_call_eq)
  have v: "nextStartTimeRef open_call = 0" "next_id open_call = 8"
    by (simp_all add: open_call_eq)
  have e: "chunk_events ?chunks = [MessageReceived 5 (audio_chunk ''AAAAAA==''),
                                   MessageReceived 5 (audio_chunk ''AAAAAA=='')]"
    by (simp add: chunk_events_def)
  have s: "spec_schedule 0 8 (chunk_durations ?chunks)
      = [SourceStart 8 5 (1 / 12000), SourceStart 9 (5 + 1 / 12000) (1 / 12000)]"
    "spec_cursor 0 (chunk_durations ?chunks) = 5 + 1 / 12000 + 1 / 12000"
    by (simp_all add: chunk_durations_def duration_def Let_def)
  from chunks_back_to_back
    [OF reachable_open_call c d, of ?es open_call 5 "audio_chunk ''AAAAAA==''" 8 5 "1 / 12000"]
    k m
  show ?thesis
    unfolding e v s by simp
qed

text \<open>
  Claim C3 as it is written fails at the interruption: after a chunk at clock 5 the cursor
  is beyond 5, and the interruption at clock 6 puts it back to 0.
\<close>

theorem cursor_interruption_counterexample:
  "nextStartTimeRef (run [MessageReceived 5 (audio_chunk ''AAAAAA==''),
                          MessageReceived 6 interruption] open_call)
     < nextStartTimeRef (run [MessageReceived 5 (audio_chunk ''AAAAAA=='')] open_call)"
  by (simp add: onmessage_interruption_playing) (simp add: playing_eq)

text \<open>
  Claim C3, as amended. The cursor does not decrease over a message without the
  interruption flag, nor when a source ends; whenever \<^verbatim>\<open>onmessage\<close> starts a source,
  for any message and in any state, the start time is at or after the device clock; and
  a message with the interruption flag whose handler returns without raising leaves the
  cursor at 0.
\<close>

theorem cursor_monotone_without_interruption:
  "(keeps_cursor e \<longrightarrow> nextStartTimeRef s \<le> nextStartTimeRef (snd (step e s)))
   \<and> (SourceStart node startAt d \<in> set (new_effects s (snd (onmessage now message s)))
      \<longrightarrow> now \<le> startAt)
   \<and> (interrupted content \<and> fst (onmessage clock (Some content) s') = Normal
      \<longrightarrow> nextStartTimeRef (snd (onmessage clock (Some content) s')) = 0)"
proof (intro conjI impI)
  assume "keeps_cursor e"
  from keeps_cursor_step [OF this, of s]
  show "nextStartTimeRef s \<le> nextStartTimeRef (snd (step e s))"
    by auto
next
  assume a: "SourceStart node startAt d \<in> set (new_effects s (snd (onmessage now message s)))"
  from onmessage_effects [of now message s] obtain x y
    where "effects (snd (onmessage now message s)) = effects s @ x @ y"
      "x = [] \<or> (\<exists>d. x = [SourceStart (next_id s) (max (nextStartTimeRef s) now) d])"
      "\<forall>e \<in> set y. \<exists>node. e = SourceStop node"
    by blast
  with a have "startAt = max (nextStartTimeRef s) now"
    by (auto simp: new_effects_def)
  then show "now \<le> startAt" by simp
next
  assume a: "interrupted content \<and> fst (onmessage clock (Some content) s') = Normal"
  let ?s0 = "handle_transcriptions (Some content) s'"
  obtain o1 s1 where h: "handle_audio clock (Some content) ?s0 = (o1, s1)"
    by (cases "handle_audio clock (Some content) ?s0")
  with a have n: "o1 = Normal" by (cases o1) (simp_all add: onmessage_def)
  obtain o2 s2 where i: "handle_interrupted (Some content) s1 = (o2, s2)"
    by (cases "handle_interrupted (Some content) s1")
  with h n have r: "onmessage clock (Some content) s' = (o2, s2)"
    by (simp add: onmessage_def)
  with a have "o2 = Normal" by simp
  with i a have "nextStartTimeRef s2 = 0"
    by (auto simp: handle_interrupted_def split: prod.splits outcome.splits)
  with r show "nextStartTimeRef (snd (onmessage clock (Some content) s')) = 0" by simp
qed

text \<open>
  The theorem at the first chunk of the open call, at clock 5, and at the interruption
  that arrives at clock 6 after it.
\<close>

theorem cursor_monotone_without_interruption_witness:
  "nextStartTimeRef open_call
     \<le> nextStartTimeRef (snd (step (MessageReceived 5 (audio_chunk ''AAAAAA=='')) open_call))
   \<and> SourceStart 8 5 (1 / 12000)
       \<in> set (new_effects open_call (snd (onmessage 5 (audio_chunk ''AAAAAA=='') open_call)))
   \<and> (5 :: real) \<le> 5
   \<and> fst (onmessage 6 (Some (no_content\<lparr>interrupted := True\<rparr>))
            (snd (onmessage 5 (audio_chunk ''AAAAAA=='') open_call))) = Normal
   \<and> nextStartTimeRef (snd (onmessage 6 (Some (no_content\<lparr>interrupted := True\<rparr>))
            (snd (onmessage 5 (audio_chunk ''AAAAAA=='') open_call)))) = 0"
proof -
  have k: "keeps_cursor (MessageReceived 5 (audio_chunk ''AAAAAA==''))"
    by (simp add: audio_chunk_def no_content_def)
  have m: "SourceStart 8 5 (1 / 12000)
      \<in> set (new_effects open_call (snd (onmessage 5 (audio_chunk ''AAAAAA=='') open_call)))"
    unfolding playing_eq by (simp add: new_effects_def open_call_eq)
  have i: "interrupted (no_content\<lparr>interrupted := True\<rparr>)" by simp
  have f: "fst (onmessage 6 (Some (no_content\<lparr>interrupted := True\<rparr>))
            (snd (onmessage 5 (audio_chunk ''AAAAAA=='') open_call))) = Normal"
    using onmessage_interruption_playing by (simp add: interruption_def)
  from cursor_monotone_without_interruption
    [where e = "MessageReceived 5 (audio_chunk ''AAAAAA=='')" and s = open_call
       and node = 8 and startAt = 5 and d = "1 / 12000" and now = 5
       and message = "audio_chunk ''AAAAAA==''"
       and content = "no_content\<lparr>interrupted := True\<rparr>" and clock = 6
       and s' = "snd (onmessage 5 (audio_chunk ''AAAAAA=='') open_call)"] k m i f
  show ?thesis by blast
qed

text \<open>
  Claim C5 fails on the code. The turns are built from the constants that the callbacks
  closed over when the call was started, not from the pending text: after the fragment
  \<open>he\<close> the pending user text is \<open>he\<close>, and a turn-complete message that carries
  the fragment \<open>llo\<close> appends the user turn \<open>llo\<close> and an empty model turn. The two
  turns, their order and the clearing of the pending text are as the claim says
  (\<open>turn_complete_appends\<close>).
\<close>

theorem turn_complete_drops_accumulated_text:
  "currentInputTranscription (run [MessageReceived 0 (user_fragment ''he'')] open_call) = ''he''
   \<and> transcripts (run [MessageReceived 0 (user_fragment ''he''),
                        MessageReceived 0 (Some (no_content\<lparr>inputTranscription := Some (Some ''llo''),
                                                            turnComplete := True\<rparr>))] open_call)
       = [\<lparr>speaker = User, transcript_text = ''llo''\<rparr>,
          \<lparr>speaker = Model, transcript_text = ''''\<rparr>]"
  by (simp add: onmessage_def handle_transcriptions_def handle_audio_def base64Audio_of_def
      handle_interrupted_def user_fragment_def no_content_def append_text_def text_or_empty_def
      Let_def open_call_eq)

text \<open>
  Claim C6 fails on the code, from the same defect: for the events \<open>he\<close> (user),
  \<open>Hi\<close> (model), \<open>llo\<close> (user) and turn-complete, the history holds two turns
  with empty text.
\<close>

theorem interleaved_fragments_history:
  "transcripts (run [MessageReceived 0 (user_fragment ''he''),
                     MessageReceived 0 (model_fragment ''Hi''),
                     MessageReceived 0 (user_fragment ''llo''),
                     MessageReceived 0 turn_complete] open_call)
     = [\<lparr>speaker = User, transcript_text = ''''\<rparr>,
        \<lparr>speaker = Model, transcript_text = ''''\<rparr>]"
  by (simp add: onmessage_def handle_transcriptions_def handle_audio_def base64Audio_of_def
      handle_interrupted_def user_fragment_def model_fragment_def turn_complete_def
      no_content_def append_text_def text_or_empty_def Let_def open_call_eq)

text \<open>
  Claim C7. In every reachable state \<^verbatim>\<open>cleanUp\<close> returns without raising; it makes the
  release calls of \<open>releases\<close>, one for each resource held and one \<^verbatim>\<open>stop\<close> for each
  scheduled source, no two of them on the same resource; in the state it leaves nothing is
  held, the set of sources is empty and the cursor is 0; and a second call returns without
  raising and changes nothing, so it releases nothing again. (The close of the session is
  queued on the session promise.)
\<close>

theorem cleanUp_twice:
  assumes "reachable s"
  shows "fst (cleanUp s) = Normal
       \<and> cleanUp (snd (cleanUp s)) = (Normal, snd (cleanUp s))
       \<and> effects (snd (cleanUp s)) = effects s @ releases s
       \<and> distinct (releases s)
       \<and> releases (snd (cleanUp s)) = []
       \<and> audioSourcesRef (snd (cleanUp s)) = []
       \<and> nextStartTimeRef (snd (cleanUp s)) = 0"
proof -
  from assms have inv: "session_invariant s" by (rule reachable_invariant)
  then have s: "sources_started s" "frameIntervalRef s \<noteq> Some 0"
    by (simp_all add: session_invariant_def)
  define s1 where "s1 = snd (cleanUp s)"
  have s1: "cleanUp s = (Normal, s1)"
    "s1 = s\<lparr>sessionPromiseRef := None, localStreamRef := None, frameIntervalRef := None,
                scriptProcessorRef := None, inputAudioContextRef := None,
                outputAudioContextRef := None, audioSourcesRef := [], nextStartTimeRef := 0,
                isCallActive := False, isConnecting := False,
                effects := effects s @ releases s\<rparr>"
    unfolding s1_def by (simp_all add: cleanUp_eq [OF s])
  have r: "releases s1 = []" by (simp add: s1(2) releases_def)
  have "sources_started s1" "frameIntervalRef s1 \<noteq> Some 0"
    by (simp_all add: s1(2) sources_started_def)
  then have "cleanUp s1 = (Normal, s1)"
    by (simp add: cleanUp_eq r) (simp add: s1(2))
  with s1 r inv show ?thesis
    unfolding s1_def [symmetric] by (simp add: distinct_releases)
qed

text \<open>
  The theorem at the open call in which one chunk was scheduled at clock 0.
\<close>

theorem cleanUp_twice_witness:
  "fst (cleanUp (snd (onmessage 0 (audio_chunk ''AAAAAA=='') open_call))) = Normal
   \<and> effects (snd (cleanUp (snd (onmessage 0 (audio_chunk ''AAAAAA=='') open_call))))
       = [SourceStart 8 0 (1 / 12000), SessionClose 3, TrackStop 1, ClearInterval 7,
          ProcessorDisconnect 5, ContextClose 4, ContextClose 2, SourceStop 8]
   \<and> cleanUp (snd (cleanUp (snd (onmessage 0 (audio_chunk ''AAAAAA=='') open_call))))
       = (Normal, snd (cleanUp (snd (onmessage 0 (audio_chunk ''AAAAAA=='') open_call))))"
proof -
  have "reachable (snd (step (MessageReceived 0 (audio_chunk ''AAAAAA=='')) open_call))"
    using reachable_open_call by (rule reachable_step)
  then have "reachable (snd (onmessage 0 (audio_chunk ''AAAAAA=='') open_call))" by simp
  from cleanUp_twice [OF this] show ?thesis
    unfolding onmessage_chunk_open_call snd_conv
    by (simp add: releases_def open_call_eq)
qed

text \<open>
  Claim C8. While the output context exists, a message whose audio decodes to an odd number
  of bytes (the channel count of the call is 1) makes the handler raise \<^verbatim>\<open>RangeError\<close>
  and nothing else: no source is created, no resource is released, the state is that after
  the transcription part with the cursor raised to the clock. Any chunk that decodes is
  scheduled by the next message.
\<close>

theorem malformed_chunk_dropped:
  assumes "reachable s" and "outputAudioContextRef s \<noteq> None"
    and "base64Audio_of message = Inr (Some base64Audio)"
    and "decode base64Audio = Inr bytes" and "odd (length bytes)"
  shows "onmessage now message s =
           (Raised RangeError,
            (handle_transcriptions message s)
              \<lparr>nextStartTimeRef := max (nextStartTimeRef s) now\<rparr>)
       \<and> (\<forall>now' base64Audio' bytes' audioBuffer'.
             decode base64Audio' = Inr bytes'
             \<and> decodeAudioData bytes' 24000 1 = Inr audioBuffer'
           \<longrightarrow> (\<exists>s'. onmessage now' (audio_chunk base64Audio') (snd (onmessage now message s))
                        = (Normal, s')
                   \<and> new_effects (snd (onmessage now message s)) s'
                        = [SourceStart (next_id s) (max (max (nextStartTimeRef s) now) now')
                             (duration audioBuffer')]
                   \<and> audioSourcesRef s' = audioSourcesRef s @
                        [\<lparr> node_id = next_id s, node_duration = duration audioBuffer',
                           node_start = Some (max (max (nextStartTimeRef s) now) now') \<rparr>]))"
proof -
  let ?s0 = "handle_transcriptions message s"
  let ?s1 = "?s0\<lparr>nextStartTimeRef := max (nextStartTimeRef s) now\<rparr>"
  from assms(4,5) have "base64Audio \<noteq> []" by (auto simp: decode_Nil)
  with assms(2,3) have "handle_audio now message ?s0 = schedule_chunk now base64Audio ?s0"
    by (simp add: handle_audio_def handle_transcriptions_keeps)
  also from assms(4,5) have "\<dots> = (Raised RangeError, ?s1)"
    by (simp add: schedule_chunk_def Let_def decodeAudioData_eq handle_transcriptions_keeps)
  finally have first: "onmessage now message s = (Raised RangeError, ?s1)"
    by (simp add: onmessage_def)
  have "reachable (snd (step (MessageReceived now message) s))"
    using assms(1) by (rule reachable_step)
  then have "session_invariant ?s1"
    by (simp add: first reachable_invariant)
  then have nonneg: "0 \<le> nextStartTimeRef ?s1" by (simp add: session_invariant_def)
  have ctx: "outputAudioContextRef ?s1 \<noteq> None"
    using assms(2) by (simp add: handle_transcriptions_keeps)
  have "\<exists>s'. onmessage now' (audio_chunk base64Audio') ?s1 = (Normal, s')
            \<and> new_effects ?s1 s'
                 = [SourceStart (next_id s) (max (max (nextStartTimeRef s) now) now')
                      (duration audioBuffer')]
            \<and> audioSourcesRef s' = audioSourcesRef s @
                 [\<lparr> node_id = next_id s, node_duration = duration audioBuffer',
                    node_start = Some (max (max (nextStartTimeRef s) now) now') \<rparr>]"
    if "decode base64Audio' = Inr bytes'" "decodeAudioData bytes' 24000 1 = Inr audioBuffer'"
    for now' base64Audio' bytes' audioBuffer'
  proof -
    from nonneg have "0 \<le> max (nextStartTimeRef ?s1) now'" by simp
    from onmessage_audio_chunk [OF that ctx this] show ?thesis
      by (simp add: new_effects_def handle_transcriptions_keeps)
  qed
  with first show ?thesis by simp
qed

text \<open>
  The theorem at the open call, for the three bytes of \<open>AAAA\<close> at clock 5, followed by
  a chunk of two frames at clock 6.
\<close>

theorem malformed_chunk_dropped_witness:
  "onmessage 5 (audio_chunk ''AAAA'') open_call
     = (Raised RangeError, open_call\<lparr>nextStartTimeRef := 5\<rparr>)
   \<and> (\<exists>s'. onmessage 6 (audio_chunk ''AAAAAA=='') (snd (onmessage 5 (audio_chunk ''AAAA'') open_call))
              = (Normal, s')
          \<and> new_effects (snd (onmessage 5 (audio_chunk ''AAAA'') open_call)) s'
              = [SourceStart 8 6 (1 / 12000)]
          \<and> audioSourcesRef s'
              = [\<lparr> node_id = 8, node_duration = 1 / 12000, node_start = Some 6 \<rparr>])"
proof -
  have c: "outputAudioContextRef open_call \<noteq> None" by (simp add: open_call_eq)
  have o: "odd (length [0 :: 8 word, 0, 0])" by simp
  have t: "handle_transcriptions (audio_chunk ''AAAA'') open_call = open_call"
    by (rule handle_transcriptions_audio_chunk)
  have v: "nextStartTimeRef open_call = 0" "next_id open_call = 8" "audioSourcesRef open_call = []"
    by (simp_all add: open_call_eq)
  have d: "duration \<lparr> numberOfChannels = 1, buffer_length = 2, sampleRate = 24000,
              channels = [[Finite 0, Finite 0]] \<rparr> = 1 / 12000"
    by (simp add: duration_def)
  note th = malformed_chunk_dropped
    [OF reachable_open_call c base64Audio_of_audio_chunk decode_AAAA o, of 5]
  from th have first: "onmessage 5 (audio_chunk ''AAAA'') open_call
     = (Raised RangeError, open_call\<lparr>nextStartTimeRef := 5\<rparr>)"
    unfolding t v by simp
  from th decode_AAAAAA decodeAudioData_zeros
  have "\<exists>s'. onmessage 6 (audio_chunk ''AAAAAA=='')
                (snd (onmessage 5 (audio_chunk ''AAAA'') open_call)) = (Normal, s')
          \<and> new_effects (snd (onmessage 5 (audio_chunk ''AAAA'') open_call)) s'
              = [SourceStart (next_id open_call) (max (max (nextStartTimeRef open_call) 5) 6)
                   (duration \<lparr> numberOfChannels = 1, buffer_length = 2, sampleRate = 24000,
                                channels = [[Finite 0, Finite 0]] \<rparr>)]
          \<and> audioSourcesRef s' = audioSourcesRef open_call @
              [\<lparr> node_id = next_id open_call,
                 node_duration = duration \<lparr> numberOfChannels = 1, buffer_length = 2,
                                   sampleRate = 24000, channels = [[Finite 0, Finite 0]] \<rparr>,
                 node_start = Some (max (max (nextStartTimeRef open_call) 5) 6) \<rparr>]"
    by blast
  then have "\<exists>s'. onmessage 6 (audio_chunk ''AAAAAA=='')
                (snd (onmessage 5 (audio_chunk ''AAAA'') open_call)) = (Normal, s')
          \<and> new_effects (snd (onmessage 5 (audio_chunk ''AAAA'') open_call)) s'
              = [SourceStart 8 6 (1 / 12000)]
          \<and> audioSourcesRef s'
              = [\<lparr> node_id = 8, node_duration = 1 / 12000, node_start = Some 6 \<rparr>]"
    unfolding v d by simp
  with first show ?thesis by blast
qed

end
